theory Spec2Isabelle
  imports Main
begin

section \<open>The project scaffolder \<open>newproj.py\<close>\<close>

text \<open>
  The program is one sequential script: it reads answers from standard input, writes
  directories and files below a target path, and runs external commands. The model
  makes each of these an explicit part of a \<open>world\<close>:
  \<^item> the file tree, as a map from paths to nodes (a directory or a file with its text);
  \<^item> the lines still waiting on standard input;
  \<^item> the trace of everything observable, in order: prompts with their answers, printed
    lines, external processes with their exit status, look-ups on the search path;
  \<^item> an oracle for the outside: the exit status of each external process, whether a
    program is on the search path, and the name of the operating system. The oracle is
    indexed by the number of processes started so far, so the same command may answer
    differently later (\<open>gh auth status\<close> before and after \<open>gh auth login\<close>).

  External processes are opaque: the model records that they ran and what they returned,
  and keeps the file map as this program reads and writes it. The file map has no
  permissions, links or device errors: a write or a directory creation fails only for
  the shape of the tree.

  A \<open>char\<close> stands for one code point below 256; \<open>str.strip\<close> and \<open>str.lower\<close> are
  modelled on that range. The few symbols of the messages outside it are written as
  their UTF-8 bytes.
\<close>

subsection \<open>Strings\<close>

definition py_isspace :: "char \<Rightarrow> bool" where
  "py_isspace c = ((of_char c :: nat) \<in> {9, 10, 11, 12, 13, 28, 29, 30, 31, 32, 133, 160})"

definition py_strip :: "string \<Rightarrow> string" where
  "py_strip s = rev (dropWhile py_isspace (rev (dropWhile py_isspace s)))"

definition py_lower_char :: "char \<Rightarrow> char" where
  "py_lower_char c =
     (let n = (of_char c :: nat)
      in if (65 \<le> n \<and> n \<le> 90) \<or> (192 \<le> n \<and> n \<le> 222 \<and> n \<noteq> 215)
         then char_of (n + 32) else c)"

definition py_lower :: "string \<Rightarrow> string" where
  "py_lower s = map py_lower_char s"

text \<open>\<open>sep.join(xs)\<close>\<close>

fun join :: "string \<Rightarrow> string list \<Rightarrow> string" where
  "join sep [] = []"
| "join sep [x] = x"
| "join sep (x # y # ys) = x @ sep @ join sep (y # ys)"

text \<open>\<open>str.splitlines\<close> for texts whose only line break is the newline character.\<close>

fun splitlines_acc :: "string \<Rightarrow> string \<Rightarrow> string list" where
  "splitlines_acc cur [] = (if cur = [] then [] else [cur])"
| "splitlines_acc cur (c # cs) =
     (if c = CHR ''\<newline>'' then cur # splitlines_acc [] cs
      else splitlines_acc (cur @ [c]) cs)"

definition splitlines :: "string \<Rightarrow> string list" where
  "splitlines s = splitlines_acc [] s"

subsection \<open>Paths and the file tree\<close>

text \<open>
  A resolved absolute path is the list of its components; the root is the empty list.
\<close>

type_synonym path = "string list"

datatype node = Dir | File string

type_synonym filesystem = "path \<rightharpoonup> node"

text \<open>The components of a relative path given as text: \<open>base / "webapp/templates"\<close>.\<close>

fun parts_acc :: "string \<Rightarrow> string \<Rightarrow> string list" where
  "parts_acc cur [] = (if cur = [] then [] else [cur])"
| "parts_acc cur (c # cs) =
     (if c = CHR ''/'' then (if cur = [] then parts_acc [] cs else cur # parts_acc [] cs)
      else parts_acc (cur @ [c]) cs)"

definition parts :: "string \<Rightarrow> string list" where
  "parts s = parts_acc [] s"

definition path_join :: "path \<Rightarrow> string \<Rightarrow> path" where
  "path_join p s = p @ parts s"

text \<open>\<open>str(path)\<close> and \<open>path.name\<close>\<close>

definition path_str :: "path \<Rightarrow> string" where
  "path_str p = (if p = [] then ''/'' else concat (map (\<lambda>c. ''/'' @ c) p))"

definition path_name :: "path \<Rightarrow> string" where
  "path_name p = (if p = [] then [] else last p)"

definition node_at :: "filesystem \<Rightarrow> path \<Rightarrow> node option" where
  "node_at t p = (if p = [] then Some Dir else t p)"

subsection \<open>Errors, events and the world\<close>

datatype error =
    CalledProcessError string int
  | EOFError
  | FileNotFoundError
  | FileExistsError
  | NotADirectoryError
  | IsADirectoryError

datatype event =
    Ask string "string option"
  | Print string
  | Exec string "path option" int
  | Which string bool

record environment =
  exit_code :: "nat \<Rightarrow> string \<Rightarrow> int"
  on_path :: "nat \<Rightarrow> string \<Rightarrow> bool"
  platform_system :: string

record world =
  fs :: filesystem
  stdin :: "string list"
  out :: "event list"
  clock :: nat
  env :: environment

type_synonym 'a action = "world \<Rightarrow> (error + 'a) \<times> world"

definition ret :: "'a \<Rightarrow> 'a action" where
  "ret x w = (Inr x, w)"

definition raise_err :: "error \<Rightarrow> 'a action" where
  "raise_err e w = (Inl e, w)"

definition and_then :: "'a action \<Rightarrow> ('a \<Rightarrow> 'b action) \<Rightarrow> 'b action" where
  "and_then m f w = (case m w of (Inl e, w') \<Rightarrow> (Inl e, w') | (Inr x, w') \<Rightarrow> f x w')"

text \<open>\<open>try: m  except E: h\<close>, where \<open>caught\<close> says which errors \<open>E\<close> matches.\<close>

definition try_except :: "'a action \<Rightarrow> (error \<Rightarrow> bool) \<Rightarrow> 'a action \<Rightarrow> 'a action" where
  "try_except m caught h w =
     (case m w of
        (Inl e, w') \<Rightarrow> if caught e then h w' else (Inl e, w')
      | (Inr x, w') \<Rightarrow> (Inr x, w'))"

fun is_CalledProcessError :: "error \<Rightarrow> bool" where
  "is_CalledProcessError (CalledProcessError c rc) = True"
| "is_CalledProcessError e = False"

fun is_FileNotFoundError :: "error \<Rightarrow> bool" where
  "is_FileNotFoundError FileNotFoundError = True"
| "is_FileNotFoundError e = False"

text \<open>The exit status of the interpreter: 0 when \<open>main\<close> returns, 1 on an uncaught error.\<close>

fun exit_status :: "(error + unit) \<Rightarrow> int" where
  "exit_status (Inr u) = 0"
| "exit_status (Inl e) = 1"

subsection \<open>Primitives of the runtime\<close>

text \<open>\<open>print(s)\<close>\<close>

definition print :: "string \<Rightarrow> unit action" where
  "print s w = (Inr (), w\<lparr>out := out w @ [Print s]\<rparr>)"

text \<open>\<open>input(prompt)\<close>: writes the prompt, reads one line; end of input raises.\<close>

definition input :: "string \<Rightarrow> string action" where
  "input prompt w =
     (case stdin w of
        [] \<Rightarrow> (Inl EOFError, w\<lparr>out := out w @ [Ask prompt None]\<rparr>)
      | l # ls \<Rightarrow> (Inr l, w\<lparr>stdin := ls, out := out w @ [Ask prompt (Some l)]\<rparr>))"

text \<open>\<open>path.exists()\<close>\<close>

definition path_exists :: "path \<Rightarrow> bool action" where
  "path_exists p w = (Inr (node_at (fs w) p \<noteq> None), w)"

text \<open>
  \<open>path.mkdir(parents, exist_ok)\<close>. A missing parent is created first when
  \<open>parents\<close> is set; an existing directory is accepted when \<open>exist_ok\<close> is set; a
  file on the way or at the path itself is an error.
\<close>

function mkdir_fs :: "bool \<Rightarrow> bool \<Rightarrow> path \<Rightarrow> filesystem \<Rightarrow> error + filesystem" where
  "mkdir_fs parents exist_ok p t =
     (case node_at t p of
        Some Dir \<Rightarrow> if exist_ok then Inr t else Inl FileExistsError
      | Some (File c) \<Rightarrow> Inl FileExistsError
      | None \<Rightarrow>
          (case node_at t (butlast p) of
             Some Dir \<Rightarrow> Inr (t(p \<mapsto> Dir))
           | Some (File c) \<Rightarrow> Inl NotADirectoryError
           | None \<Rightarrow>
               if \<not> parents then Inl FileNotFoundError
               else (case mkdir_fs True True (butlast p) t of
                       Inl e \<Rightarrow> Inl e
                     | Inr t' \<Rightarrow> Inr (t'(p \<mapsto> Dir)))))"
  by pat_completeness auto
termination
  by (relation "measure (\<lambda>(parents, exist_ok, p, t). length p)")
     (auto simp: node_at_def split: if_splits)

definition mkdir :: "path \<Rightarrow> bool \<Rightarrow> bool \<Rightarrow> unit action" where
  "mkdir p parents exist_ok w =
     (case mkdir_fs parents exist_ok p (fs w) of
        Inl e \<Rightarrow> (Inl e, w)
      | Inr t \<Rightarrow> (Inr (), w\<lparr>fs := t\<rparr>))"

text \<open>\<open>path.write_text(content)\<close>\<close>

definition write_text :: "path \<Rightarrow> string \<Rightarrow> unit action" where
  "write_text p content w =
     (case node_at (fs w) p of
        Some Dir \<Rightarrow> (Inl IsADirectoryError, w)
      | _ \<Rightarrow>
        (case node_at (fs w) (butlast p) of
           None \<Rightarrow> (Inl FileNotFoundError, w)
         | Some (File c) \<Rightarrow> (Inl NotADirectoryError, w)
         | Some Dir \<Rightarrow> (Inr (), w\<lparr>fs := (fs w)(p \<mapsto> File content)\<rparr>)))"

text \<open>
  \<open>subprocess.run(cmd, shell=True, cwd=cwd)\<close> without \<open>check\<close>: the exit status is
  returned. A working directory that is not a directory raises before anything runs.
\<close>

definition shell :: "string \<Rightarrow> path option \<Rightarrow> int action" where
  "shell cmd cwd w =
     (case (case cwd of None \<Rightarrow> Some Dir | Some d \<Rightarrow> node_at (fs w) d) of
        None \<Rightarrow> (Inl FileNotFoundError, w)
      | Some (File c) \<Rightarrow> (Inl NotADirectoryError, w)
      | Some Dir \<Rightarrow>
          (let rc = exit_code (env w) (clock w) cmd
           in (Inr rc, w\<lparr>out := out w @ [Exec cmd cwd rc], clock := Suc (clock w)\<rparr>)))"

text \<open>
  \<open>subprocess.run([prog, arg])\<close> without a shell and without \<open>check\<close>: a program that
  is not on the search path raises \<open>FileNotFoundError\<close>.
\<close>

definition spawn :: "string \<Rightarrow> string \<Rightarrow> int action" where
  "spawn prog arg w =
     (if on_path (env w) (clock w) prog
      then (let cmd = prog @ '' '' @ arg; rc = exit_code (env w) (clock w) cmd
            in (Inr rc, w\<lparr>out := out w @ [Exec cmd None rc], clock := Suc (clock w)\<rparr>))
      else (Inl FileNotFoundError, w))"

text \<open>\<open>shutil.which(prog) is not None\<close>\<close>

definition which :: "string \<Rightarrow> bool action" where
  "which prog w =
     (let b = on_path (env w) (clock w) prog
      in (Inr b, w\<lparr>out := out w @ [Which prog b]\<rparr>))"

definition platform :: "string action" where
  "platform w = (Inr (platform_system (env w)), w)"

subsection \<open>Constants of the program\<close>

definition BASE_DEPENDENCIES :: "string list" where
  "BASE_DEPENDENCIES = [''psycopg2-binary'']"

definition DEV_DEPENDENCIES :: "string list" where
  "DEV_DEPENDENCIES = [''ruff'', ''pytest'']"

text \<open>The symbols of the messages that are not ASCII, as UTF-8 bytes.\<close>

definition warning_sign :: string where
  "warning_sign = [CHR 0xE2, CHR 0x9A, CHR 0xA0, CHR 0xEF, CHR 0xB8, CHR 0x8F]"

definition cross_mark :: string where
  "cross_mark = [CHR 0xE2, CHR 0x9D, CHR 0x8C]"

definition check_mark :: string where
  "check_mark = [CHR 0xE2, CHR 0x9C, CHR 0x85]"

definition em_dash :: string where
  "em_dash = [CHR 0xE2, CHR 0x80, CHR 0x94]"

definition apostrophe :: string where
  "apostrophe = [CHR 0x27]"

text \<open>The texts of the template files, in the order of their writes.\<close>

definition readme_text :: "string \<Rightarrow> string" where
  "readme_text name =
     ''# '' @ name @ ''\<newline>\<newline>Project generated with `newproj.py`.''"

definition gitignore_text :: string where
  "gitignore_text = ''.venv/\<newline>__pycache__/\<newline>*.pyc\<newline>.env\<newline>''"

definition license_text :: string where
  "license_text = ''MIT License\<newline>''"

definition requirements_text :: string where
  "requirements_text = join ''\<newline>'' BASE_DEPENDENCIES @ ''\<newline>''"

definition requirements_dev_text :: string where
  "requirements_dev_text = join ''\<newline>'' DEV_DEPENDENCIES @ ''\<newline>''"

definition pyproject :: string where
  \<open>pyproject = ''\<newline>[tool.ruff]\<newline>line-length = 100\<newline>exclude = ["migrations", "tests/data"]\<newline>target-version = "py311"\<newline>''\<close>

definition pyproject_text :: string where
  "pyproject_text = py_strip pyproject @ ''\<newline>''"

definition cli_main_text :: string where
  \<open>cli_main_text = ''import argparse\<newline>\<newline>def main():\<newline>    parser = argparse.ArgumentParser(description="CLI Entry Point")\<newline>    args = parser.parse_args()\<newline>    print("CLI is working!")\<newline>\<newline>if __name__ == "__main__":\<newline>    main()\<newline>''\<close>

definition webapp_app_text :: string where
  \<open>webapp_app_text = ''from flask import Flask, render_template\<newline>\<newline>app = Flask(__name__)\<newline>\<newline>@app.route("/")\<newline>def index():\<newline>    return render_template("index.html", title="Welcome")\<newline>\<newline>if __name__ == "__main__":\<newline>    app.run(debug=True)\<newline>''\<close>

definition index_html_text :: string where
  \<open>index_html_text = ''<!doctype html>\<newline><html>\<newline><head><title>{{ title }}</title></head>\<newline><body><h1>{{ title }}</h1></body>\<newline></html>\<newline>''\<close>

subsection \<open>The functions of \<open>newproj.py\<close>\<close>

text \<open>\<open>run\<close>: \<open>subprocess.run(cmd, shell=True, check=True, cwd=cwd)\<close>\<close>

definition run :: "string \<Rightarrow> path option \<Rightarrow> unit action" where
  "run cmd cwd =
     and_then (shell cmd cwd) (\<lambda>rc.
       if rc \<noteq> 0 then raise_err (CalledProcessError cmd rc) else ret ())"

definition overwrite_prompt :: "path \<Rightarrow> string" where
  "overwrite_prompt filepath =
     warning_sign @ '' File '' @ apostrophe @ path_str filepath @ apostrophe
       @ '' exists. Overwrite? (y/N): ''"

text \<open>
  \<open>safe_write_file\<close>. The first step gives \<open>True\<close> where the source returns early
  (the file exists and the answer is not \<open>y\<close>).
\<close>

definition safe_write_file :: "path \<Rightarrow> string \<Rightarrow> unit action" where
  "safe_write_file filepath content =
     and_then (path_exists filepath) (\<lambda>ex.
     and_then
       (if ex then
          and_then (input (overwrite_prompt filepath)) (\<lambda>a.
            let overwrite = py_lower (py_strip a)
            in if overwrite \<noteq> ''y''
               then and_then
                      (print (''Skipping '' @ apostrophe @ path_name filepath @ apostrophe))
                      (\<lambda>u. ret True)
               else ret False)
        else ret False) (\<lambda>returned.
     if returned then ret ()
     else and_then (write_text filepath content) (\<lambda>u.
          print (''Created: '' @ path_str filepath))))"

text \<open>\<open>for x in xs: body(x)\<close>\<close>

fun for_each :: "'a list \<Rightarrow> ('a \<Rightarrow> unit action) \<Rightarrow> unit action" where
  "for_each [] body = ret ()"
| "for_each (x # xs) body = and_then (body x) (\<lambda>u. for_each xs body)"

definition create_project_structure :: "path \<Rightarrow> string \<Rightarrow> bool \<Rightarrow> unit action" where
  "create_project_structure base_path name include_web =
     (let dirs = [''cli'', ''src'', ''tests'', ''db'', ''scripts'']
                   @ (if include_web then [''webapp'', ''webapp/templates''] else [])
      in
      and_then (for_each dirs (\<lambda>d. mkdir (path_join base_path d) True True)) (\<lambda>u.
      and_then (safe_write_file (path_join base_path ''README.md'') (readme_text name)) (\<lambda>u.
      and_then (safe_write_file (path_join base_path ''.gitignore'') gitignore_text) (\<lambda>u.
      and_then (safe_write_file (path_join base_path ''LICENSE'') license_text) (\<lambda>u.
      and_then (safe_write_file (path_join base_path ''requirements.txt'') requirements_text) (\<lambda>u.
      and_then (safe_write_file (path_join base_path ''requirements-dev.txt'')
                  requirements_dev_text) (\<lambda>u.
      and_then (safe_write_file (path_join base_path ''pyproject.toml'') pyproject_text) (\<lambda>u.
      and_then (safe_write_file (path_join (path_join base_path ''cli'') ''main.py'')
                  cli_main_text) (\<lambda>u.
      if include_web then
        and_then (safe_write_file (path_join (path_join base_path ''webapp'') ''app.py'')
                    webapp_app_text) (\<lambda>u.
        safe_write_file
          (path_join (path_join (path_join base_path ''webapp'') ''templates'') ''index.html'')
          index_html_text)
      else ret ())))))))))"

definition create_venv_and_install :: "path \<Rightarrow> unit action" where
  "create_venv_and_install base_path =
     and_then (run ''python3 -m venv .venv'' (Some base_path)) (\<lambda>u.
     and_then (run ''./.venv/bin/pip install --upgrade pip'' (Some base_path)) (\<lambda>u.
     run ''./.venv/bin/pip install -r requirements.txt -r requirements-dev.txt''
       (Some base_path)))"

definition git_commit_cmd :: string where
  "git_commit_cmd = ''git commit -m '' @ apostrophe @ ''Initial project scaffold'' @ apostrophe"

definition git_commit_warning :: string where
  "git_commit_warning =
     warning_sign @ '' Git commit failed '' @ em_dash @ '' possibly because there''
       @ apostrophe @ ''s nothing new to commit.''"

definition init_git_repo :: "path \<Rightarrow> unit action" where
  "init_git_repo base_path =
     and_then (run ''git init'' (Some base_path)) (\<lambda>u.
     and_then (run ''git add .'' (Some base_path)) (\<lambda>u.
     try_except (run git_commit_cmd (Some base_path)) is_CalledProcessError
       (print git_commit_warning)))"

definition github_cli_installed :: "bool action" where
  "github_cli_installed = which ''gh''"

definition gh_authenticated :: "bool action" where
  "gh_authenticated = and_then (shell ''gh auth status'' None) (\<lambda>rc. ret (rc = 0))"

definition login_prompt :: string where
  "login_prompt = ''Run `gh auth login` now? (y/N): ''"

definition visibility_prompt :: string where
  "visibility_prompt = ''GitHub repo visibility? [public/private] (default: private): ''"

text \<open>Lines 115 to 117: the visibility read from the answer.\<close>

definition visibility_of :: "string \<Rightarrow> string" where
  "visibility_of a =
     (let visibility = py_lower (py_strip a)
      in if visibility \<notin> {''public'', ''private''} then ''private'' else visibility)"

definition gh_repo_create_cmd :: "string \<Rightarrow> string \<Rightarrow> string" where
  "gh_repo_create_cmd name visibility =
     ''gh repo create '' @ name @ '' --source=. --'' @ visibility @ '' --push''"

text \<open>
  \<open>push_to_github\<close>. Each of the two guards gives \<open>False\<close> where the source returns
  early.
\<close>

definition push_to_github :: "path \<Rightarrow> string \<Rightarrow> unit action" where
  "push_to_github base_path name =
     and_then
       (try_except (and_then (spawn ''gh'' ''--version'') (\<lambda>rc. ret True))
          is_FileNotFoundError
          (and_then
             (print (cross_mark @ '' GitHub CLI (`gh`) is not installed or not in PATH.''))
             (\<lambda>u. ret False))) (\<lambda>present.
     if \<not> present then ret ()
     else
     and_then gh_authenticated (\<lambda>authenticated.
     and_then
       (if \<not> authenticated then
          and_then (print (warning_sign @ '' GitHub CLI is not authenticated.'')) (\<lambda>u.
          and_then (input login_prompt) (\<lambda>a.
            let auth = py_lower (py_strip a)
            in if auth = ''y'' then
                 and_then
                   (try_except (and_then (run ''gh auth login'' None) (\<lambda>u. ret True))
                      is_CalledProcessError
                      (and_then
                         (print (cross_mark @ '' Authentication failed or was cancelled.''))
                         (\<lambda>u. ret False))) (\<lambda>logged_in.
                 if \<not> logged_in then ret False
                 else
                 and_then gh_authenticated (\<lambda>authenticated_now.
                 if \<not> authenticated_now then
                   and_then
                     (print (cross_mark
                        @ '' Still not authenticated after `gh auth login`. Aborting GitHub push.''))
                     (\<lambda>u. ret False)
                 else ret True))
               else
                 and_then
                   (print (cross_mark
                      @ '' Skipping GitHub push due to lack of authentication.''))
                   (\<lambda>u. ret False)))
        else ret True) (\<lambda>ready.
     if \<not> ready then ret ()
     else
     and_then (input visibility_prompt) (\<lambda>a.
     run (gh_repo_create_cmd name (visibility_of a)) (Some base_path)))))"

text \<open>
  \<open>install_github_cli\<close>. The first step gives \<open>False\<close> where the source returns
  \<open>False\<close> before the final probe.
\<close>

definition install_github_cli :: "bool action" where
  "install_github_cli =
     and_then platform (\<lambda>system.
     and_then
       (if system = ''Darwin'' then
          and_then (which ''brew'') (\<lambda>brew.
          if \<not> brew then
            and_then
              (print (cross_mark @ '' Homebrew is not installed. Cannot install GitHub CLI.''))
              (\<lambda>u. ret False)
          else
            and_then (print ''Installing GitHub CLI via Homebrew...'') (\<lambda>u.
            and_then (run ''brew install gh'' None) (\<lambda>u. ret True)))
        else if system = ''Linux'' then
          and_then (which ''apt'') (\<lambda>apt.
          if apt then
            and_then (print ''Installing GitHub CLI via apt...'') (\<lambda>u.
            and_then (run ''sudo apt update && sudo apt install -y gh'' None) (\<lambda>u. ret True))
          else
            and_then (which ''dnf'') (\<lambda>dnf.
            if dnf then
              and_then (print ''Installing GitHub CLI via dnf...'') (\<lambda>u.
              and_then (run ''sudo dnf install -y gh'' None) (\<lambda>u. ret True))
            else
              and_then (print (cross_mark @ '' Unsupported Linux package manager.''))
                (\<lambda>u. ret False)))
        else
          and_then
            (print (cross_mark @ '' GitHub CLI installation not supported on this OS.''))
            (\<lambda>u. ret False)) (\<lambda>installed.
     if \<not> installed then ret False else github_cli_installed))"

definition create_prompt :: "path \<Rightarrow> string" where
  "create_prompt base_path =
     ''Directory '' @ apostrophe @ path_str base_path @ apostrophe
       @ '' does not exist. Create it? (y/N): ''"

definition web_prompt :: string where
  "web_prompt = ''Include web frontend? (y/N): ''"

definition install_prompt :: string where
  "install_prompt = ''GitHub CLI not found. Install it now? (y/N): ''"

definition push_prompt :: string where
  "push_prompt = ''Push to GitHub? (y/N): ''"

definition success_line :: "string \<Rightarrow> path \<Rightarrow> string" where
  "success_line name base_path =
     check_mark @ '' Project '' @ apostrophe @ name @ apostrophe @ '' created at ''
       @ path_str base_path"

text \<open>
  \<open>main\<close>, from the resolved path on (the argument parser and the resolution of the
  path are the library's), in the blocks of the source:
  \<^item> \<open>target_resolution\<close>, lines 162 to 167, gives \<open>False\<close> where the source
    returns after \<open>Aborting.\<close>;
  \<^item> \<open>push_offer\<close>, lines 182 to 184, is the body of \<open>if gh_ready\<close>;
  \<^item> \<open>hosting_stage\<close>, lines 175 to 184;
  \<^item> \<open>later_stages\<close>, lines 172 to 186, is everything after the scaffold;
  \<^item> \<open>pipeline\<close>, lines 169 to 186, is everything after the target exists.
\<close>

definition target_resolution :: "path \<Rightarrow> bool action" where
  "target_resolution base_path =
     and_then (path_exists base_path) (\<lambda>ex.
     if \<not> ex then
       and_then (input (create_prompt base_path)) (\<lambda>a.
         let create = py_lower (py_strip a)
         in if create \<noteq> ''y'' then and_then (print ''Aborting.'') (\<lambda>u. ret False)
            else and_then (mkdir base_path True False) (\<lambda>u. ret True))
     else ret True)"

definition push_offer :: "path \<Rightarrow> string \<Rightarrow> unit action" where
  "push_offer base_path name =
     and_then (input push_prompt) (\<lambda>a.
       let push = py_lower (py_strip a)
       in if push = ''y'' then push_to_github base_path name else ret ())"

definition hosting_stage :: "path \<Rightarrow> string \<Rightarrow> unit action" where
  "hosting_stage base_path name =
     and_then github_cli_installed (\<lambda>found.
     and_then
       (if \<not> found then
          and_then (input install_prompt) (\<lambda>a.
            let offer = py_lower (py_strip a)
            in if offer = ''y'' then install_github_cli else ret found)
        else ret found) (\<lambda>gh_ready.
     if gh_ready then push_offer base_path name else ret ()))"

definition later_stages :: "path \<Rightarrow> string \<Rightarrow> unit action" where
  "later_stages base_path name =
     and_then (create_venv_and_install base_path) (\<lambda>u.
     and_then (init_git_repo base_path) (\<lambda>u.
     and_then (hosting_stage base_path name) (\<lambda>u.
     print (success_line name base_path))))"

definition pipeline :: "path \<Rightarrow> string \<Rightarrow> unit action" where
  "pipeline base_path name =
     and_then (input web_prompt) (\<lambda>a.
       let include_web = (py_lower (py_strip a) = ''y'')
       in
       and_then (create_project_structure base_path name include_web) (\<lambda>u.
       later_stages base_path name))"

definition main :: "path \<Rightarrow> unit action" where
  "main base_path =
     (let name = path_name base_path
      in
      and_then (target_resolution base_path) (\<lambda>proceed.
      if \<not> proceed then ret () else pipeline base_path name))"

text \<open>A run of the program from a fresh process: nothing printed, no process started.\<close>

definition start :: "filesystem \<Rightarrow> string list \<Rightarrow> environment \<Rightarrow> world" where
  "start t ls e = \<lparr>fs = t, stdin = ls, out = [], clock = 0, env = e\<rparr>"

definition run_main :: "path \<Rightarrow> filesystem \<Rightarrow> string list \<Rightarrow> environment
    \<Rightarrow> (error + unit) \<times> world" where
  "run_main base_path t ls e = main base_path (start t ls e)"

subsection \<open>Notions used to state the properties\<close>

text \<open>The reading of an answer to a yes/no prompt.\<close>

definition accepted :: "string \<Rightarrow> bool" where
  "accepted a = (py_lower (py_strip a) = ''y'')"

text \<open>The file map is a tree: whatever exists lies in a directory.\<close>

definition tree_shaped :: "filesystem \<Rightarrow> bool" where
  "tree_shaped t = (\<forall>p. t p \<noteq> None \<longrightarrow> node_at t (butlast p) = Some Dir)"

text \<open>
  Two properties of an action, whatever the world it starts in: it only appends events of
  a given kind to the trace; it leaves the file map as it was.
\<close>

definition only :: "(event \<Rightarrow> bool) \<Rightarrow> 'a action \<Rightarrow> bool" where
  "only Q m = (\<forall>w. \<exists>evs. out (snd (m w)) = out w @ evs \<and> list_all Q evs)"

definition keeps_fs :: "'a action \<Rightarrow> bool" where
  "keeps_fs m = (\<forall>w. fs (snd (m w)) = fs w)"

text \<open>The three commands of the environment provisioner, in their order.\<close>

definition provision_cmds :: "string list" where
  "provision_cmds =
     [''python3 -m venv .venv'',
      ''./.venv/bin/pip install --upgrade pip'',
      ''./.venv/bin/pip install -r requirements.txt -r requirements-dev.txt'']"

text \<open>
  The events of the stages before the provisioner: prompts with their answers, the four
  prompts of the hosting stage apart, and printed lines, the final success line and the
  skip notices of the hosting stage (the lines that start with the cross mark) apart.
\<close>

fun scaffold_event :: "string \<Rightarrow> path \<Rightarrow> event \<Rightarrow> bool" where
  "scaffold_event name base_path (Ask p x) =
     (p \<notin> {install_prompt, push_prompt, login_prompt, visibility_prompt})"
| "scaffold_event name base_path (Print s) =
     (s \<noteq> success_line name base_path \<and> take 3 s \<noteq> cross_mark)"
| "scaffold_event name base_path (Exec c d rc) = False"
| "scaffold_event name base_path (Which p b) = False"

text \<open>
  The events of the hosting stage: no process of the provisioner or of the version-control
  stage, and not the final success line.
\<close>

fun hosting_event :: "string \<Rightarrow> path \<Rightarrow> event \<Rightarrow> bool" where
  "hosting_event name base_path (Ask p x) = True"
| "hosting_event name base_path (Print s) = (s \<noteq> success_line name base_path)"
| "hosting_event name base_path (Exec c d rc) =
     (c \<notin> set provision_cmds \<and> c \<notin> {''git init'', ''git add .'', git_commit_cmd})"
| "hosting_event name base_path (Which p b) = True"

text \<open>A sample of the outside for concrete runs: every process succeeds, nothing is found
  on the search path.\<close>

definition quiet_env :: environment where
  "quiet_env = \<lparr>exit_code = (\<lambda>n c. 0), on_path = (\<lambda>n p. False), platform_system = ''Linux''\<rparr>"

text \<open>Another sample: every process succeeds and every program is found.\<close>

definition ready_env :: environment where
  "ready_env = \<lparr>exit_code = (\<lambda>n c. 0), on_path = (\<lambda>n p. True), platform_system = ''Linux''\<rparr>"

text \<open>A sample where the upgrade of the installer fails and nothing else does.\<close>

definition upgrade_fails_env :: environment where
  "upgrade_fails_env =
     \<lparr>exit_code = (\<lambda>n c. if c = ''./.venv/bin/pip install --upgrade pip'' then 1 else 0),
      on_path = (\<lambda>n p. False), platform_system = ''Linux''\<rparr>"

text \<open>A sample where the initial commit fails and nothing else does.\<close>

definition commit_fails_env :: environment where
  "commit_fails_env =
     \<lparr>exit_code = (\<lambda>n c. if c = git_commit_cmd then 1 else 0),
      on_path = (\<lambda>n p. False), platform_system = ''Linux''\<rparr>"

text \<open>A skip notice of the hosting stage: a printed line that starts with the cross mark.\<close>

fun skip_notice :: "event \<Rightarrow> bool" where
  "skip_notice (Print s) = (take 3 s = cross_mark)"
| "skip_notice ev = False"

text \<open>
  A sample on macOS where Homebrew is there, the hosting CLI is not, and its installation
  fails.
\<close>

definition brew_fails_env :: environment where
  "brew_fails_env =
     \<lparr>exit_code = (\<lambda>n c. if c = ''brew install gh'' then 1 else 0),
      on_path = (\<lambda>n p. p = ''brew''), platform_system = ''Darwin''\<rparr>"

text \<open>A sample where the hosting CLI is there and authenticated, and the creation of the
  remote repository fails.\<close>

definition create_fails_env :: environment where
  "create_fails_env =
     \<lparr>exit_code = (\<lambda>n c. if c = gh_repo_create_cmd ''demo'' ''private'' then 1 else 0),
      on_path = (\<lambda>n p. True), platform_system = ''Linux''\<rparr>"

text \<open>
  A monitor for the order of the hosting stage. It reads the trace of a run from the
  phase \<open>Absent\<close> and moves on
  \<^item> to \<open>Present\<close> when the CLI is found on the search path,
  \<^item> to \<open>Offered\<close> when the push prompt is accepted,
  \<^item> to \<open>Authenticated\<close> or \<open>Unauthenticated\<close> with each exit status of
    \<open>gh auth status\<close>.
  It rejects (\<open>None\<close>) a push prompt while the CLI is absent, a query of the
  authentication before the push prompt was accepted, a login prompt in another phase
  than \<open>Unauthenticated\<close>, and a visibility prompt or a creation of the remote repository
  in another phase than \<open>Authenticated\<close>.
\<close>

datatype phase = Absent | Present | Offered | Unauthenticated | Authenticated

fun monitor :: "string \<Rightarrow> phase \<Rightarrow> event \<Rightarrow> phase option" where
  "monitor name ph (Which p b) = Some (if p = ''gh'' \<and> b \<and> ph = Absent then Present else ph)"
| "monitor name ph (Ask p x) =
     (if p = push_prompt then
        (if ph = Absent then None
         else Some (case x of Some a \<Rightarrow> if accepted a then Offered else ph | None \<Rightarrow> ph))
      else if p = login_prompt then (if ph = Unauthenticated then Some ph else None)
      else if p = visibility_prompt then (if ph = Authenticated then Some ph else None)
      else Some ph)"
| "monitor name ph (Exec c d rc) =
     (if c = ''gh auth status'' then
        (if ph = Absent \<or> ph = Present then None
         else Some (if rc = 0 then Authenticated else Unauthenticated))
      else if c = gh_repo_create_cmd name ''public'' \<or> c = gh_repo_create_cmd name ''private''
      then (if ph = Authenticated then Some ph else None)
      else Some ph)"
| "monitor name ph (Print s) = Some ph"

fun run_monitor :: "string \<Rightarrow> phase \<Rightarrow> event list \<Rightarrow> phase option" where
  "run_monitor name ph [] = Some ph"
| "run_monitor name ph (ev # evs) =
     (case monitor name ph ev of None \<Rightarrow> None | Some ph' \<Rightarrow> run_monitor name ph' evs)"

text \<open>A sample where the hosting CLI is there and not authenticated.\<close>

definition unauthenticated_env :: environment where
  "unauthenticated_env =
     \<lparr>exit_code = (\<lambda>n c. if c = ''gh auth status'' then 1 else 0),
      on_path = (\<lambda>n p. True), platform_system = ''Linux''\<rparr>"

text \<open>A sample tree: the target directory exists and is empty.\<close>

definition demo_tree :: filesystem where
  "demo_tree = Map.empty([''demo''] \<mapsto> Dir)"

section \<open>Properties\<close>

subsection \<open>Answers to yes/no prompts\<close>

lemma char_eq_nat: "(c = d) = ((of_char c :: nat) = of_char d)"
  by (metis char_of_char)

lemma py_lower_char_y: "py_lower_char c = CHR ''y'' \<longleftrightarrow> c = CHR ''y'' \<or> c = CHR ''Y''"
proof -
  define n where "n = (of_char c :: nat)"
  have lt: "n < 256" unfolding n_def by simp
  have l: "(of_char (py_lower_char c) :: nat) =
      (if (65 \<le> n \<and> n \<le> 90) \<or> (192 \<le> n \<and> n \<le> 222 \<and> n \<noteq> 215) then n + 32 else n)"
    using lt by (auto simp: py_lower_char_def Let_def n_def[symmetric])
  have "py_lower_char c = CHR ''y'' \<longleftrightarrow> (of_char (py_lower_char c) :: nat) = 121"
    by (simp add: char_eq_nat [of "py_lower_char c"])
  also have "\<dots> \<longleftrightarrow> n = 121 \<or> n = 89"
    unfolding l by auto
  also have "\<dots> \<longleftrightarrow> c = CHR ''y'' \<or> c = CHR ''Y''"
    by (simp add: char_eq_nat [of c] n_def)
  finally show ?thesis .
qed

lemma py_isspace_y: "\<not> py_isspace (CHR ''y'')" "\<not> py_isspace (CHR ''Y'')"
  by (simp_all add: py_isspace_def)

lemma strip_singleton:
  "py_strip s = [c] \<longleftrightarrow>
     (\<not> py_isspace c \<and>
      (\<exists>pre post. s = pre @ c # post \<and> list_all py_isspace pre \<and> list_all py_isspace post))"
proof
  assume h: "py_strip s = [c]"
  define d where "d = dropWhile py_isspace s"
  from h have dw: "dropWhile py_isspace (rev d) = [c]"
    unfolding py_strip_def d_def by (metis rev_singleton_conv)
  then have nsp: "\<not> py_isspace c"
    by (metis hd_dropWhile list.sel(1) not_Cons_self2)
  have "rev d = takeWhile py_isspace (rev d) @ [c]"
    using dw takeWhile_dropWhile_id [of py_isspace "rev d"] by simp
  then have d: "d = c # rev (takeWhile py_isspace (rev d))"
    by (metis rev_append rev_rev_ident rev_singleton_conv append_Cons append_Nil)
  have s: "s = takeWhile py_isspace s @ d"
    unfolding d_def by simp
  have a1: "list_all py_isspace (takeWhile py_isspace s)"
    by (simp add: list_all_iff) (meson set_takeWhileD)
  have a2: "list_all py_isspace (rev (takeWhile py_isspace (rev d)))"
    by (simp add: list_all_iff) (meson set_takeWhileD)
  from s d a1 a2 nsp show "\<not> py_isspace c \<and>
      (\<exists>pre post. s = pre @ c # post \<and> list_all py_isspace pre \<and> list_all py_isspace post)"
    by metis
next
  assume "\<not> py_isspace c \<and>
      (\<exists>pre post. s = pre @ c # post \<and> list_all py_isspace pre \<and> list_all py_isspace post)"
  then obtain pre post where nsp: "\<not> py_isspace c" and s: "s = pre @ c # post"
    and a1: "list_all py_isspace pre" and a2: "list_all py_isspace post" by blast
  have "dropWhile py_isspace s = c # post"
    using a1 nsp unfolding s by (simp add: list_all_iff dropWhile_append2)
  moreover have "dropWhile py_isspace (rev post @ [c]) = [c]"
    using a2 nsp by (subst dropWhile_append2) (auto simp: list_all_iff)
  ultimately show "py_strip s = [c]"
    by (simp add: py_strip_def)
qed

lemma accepted_iff:
  "accepted a \<longleftrightarrow>
     (\<exists>pre c post. a = pre @ c # post \<and> list_all py_isspace pre \<and> list_all py_isspace post
        \<and> (c = CHR ''y'' \<or> c = CHR ''Y''))"
proof -
  have "accepted a \<longleftrightarrow> (\<exists>c. py_strip a = [c] \<and> py_lower_char c = CHR ''y'')"
    by (auto simp: accepted_def py_lower_def)
  also have "\<dots> \<longleftrightarrow> (\<exists>c. py_strip a = [c] \<and> (c = CHR ''y'' \<or> c = CHR ''Y''))"
    by (simp add: py_lower_char_y)
  also have "\<dots> \<longleftrightarrow> (\<exists>pre c post. a = pre @ c # post \<and> list_all py_isspace pre
        \<and> list_all py_isspace post \<and> (c = CHR ''y'' \<or> c = CHR ''Y''))"
    unfolding strip_singleton using py_isspace_y by blast
  finally show ?thesis .
qed

lemma accepted_examples:
  "\<not> accepted []" "\<not> accepted ''yes''" "accepted '' Y ''" "\<not> accepted ''n''"
  by code_simp+

subsection \<open>Directory creation\<close>

declare mkdir_fs.simps [simp del]

lemma mkdir_fs_unfold:
  "mkdir_fs parents exist_ok p t =
     (case node_at t p of
        Some Dir \<Rightarrow> if exist_ok then Inr t else Inl FileExistsError
      | Some (File c) \<Rightarrow> Inl FileExistsError
      | None \<Rightarrow>
          (case node_at t (butlast p) of
             Some Dir \<Rightarrow> Inr (t(p \<mapsto> Dir))
           | Some (File c) \<Rightarrow> Inl NotADirectoryError
           | None \<Rightarrow>
               if \<not> parents then Inl FileNotFoundError
               else (case mkdir_fs True True (butlast p) t of
                       Inl e \<Rightarrow> Inl e
                     | Inr t' \<Rightarrow> Inr (t'(p \<mapsto> Dir)))))"
  by (rule mkdir_fs.simps)

lemma mkdir_fs_existing_dir:
  "node_at t p = Some Dir \<Longrightarrow> mkdir_fs parents True p t = Inr t"
  by (simp add: mkdir_fs_unfold)

lemma mkdir_fs_result:
  "mkdir_fs parents exist_ok p t = Inr t' \<Longrightarrow>
     node_at t' p = Some Dir \<and> (\<forall>q. t q \<noteq> None \<longrightarrow> t' q = t q)
       \<and> (\<forall>q. t' q \<noteq> t q \<longrightarrow> t' q = Some Dir \<and> (\<exists>n\<le>length p. q = take n p))"
proof (induction parents exist_ok p t arbitrary: t' rule: mkdir_fs.induct)
  case (1 parents exist_ok p t)
  show ?case
  proof (cases "node_at t p")
    case (Some nd)
    with "1.prems" show ?thesis
      by (cases nd) (auto simp: mkdir_fs_unfold [of parents exist_ok p t] split: if_splits)
  next
    case None
    then have ne: "p \<noteq> []" by (auto simp: node_at_def)
    show ?thesis
    proof (cases "node_at t (butlast p)")
      case (Some nd)
      with None "1.prems" ne show ?thesis
        by (cases nd)
           (auto simp: mkdir_fs_unfold [of parents exist_ok p t] node_at_def
                 split: if_splits intro: exI [of _ "length p"])
    next
      case N2: None
      with None "1.prems" obtain t'' where
        par: "parents" and rec: "mkdir_fs True True (butlast p) t = Inr t''"
        and t': "t' = t''(p \<mapsto> Dir)"
        by (auto simp: mkdir_fs_unfold [of parents exist_ok p t] split: if_splits sum.splits)
      from "1.IH" [OF None N2 _ rec] par
      have ih: "node_at t'' (butlast p) = Some Dir" "\<forall>q. t q \<noteq> None \<longrightarrow> t'' q = t q"
        "\<forall>q. t'' q \<noteq> t q \<longrightarrow> t'' q = Some Dir \<and> (\<exists>n\<le>length (butlast p). q = take n (butlast p))"
        by auto
      have a: "node_at t' p = Some Dir" using ne by (simp add: t' node_at_def)
      have b: "\<forall>q. t q \<noteq> None \<longrightarrow> t' q = t q"
        using ih(2) None ne by (auto simp: t' node_at_def)
      have c: "\<forall>q. t' q \<noteq> t q \<longrightarrow> t' q = Some Dir \<and> (\<exists>n\<le>length p. q = take n p)"
      proof (intro allI impI)
        fix q assume d: "t' q \<noteq> t q"
        show "t' q = Some Dir \<and> (\<exists>n\<le>length p. q = take n p)"
        proof (cases "q = p")
          case True
          then show ?thesis by (auto simp: t' intro: exI [of _ "length p"])
        next
          case False
          with d have "t'' q \<noteq> t q" by (simp add: t')
          with ih(3) obtain n where n: "t'' q = Some Dir" "n \<le> length (butlast p)"
            "q = take n (butlast p)" by blast
          have "0 < length p" using ne by simp
          with n(2) have "n < length p" unfolding length_butlast by linarith
          then have "take n (butlast p) = take n p" by (simp add: take_butlast)
          with n False show ?thesis
            by (auto simp: t' intro!: exI [of _ n])
        qed
      qed
      from a b c show ?thesis by blast
    qed
  qed
qed


lemma mkdir_fs_chain:
  "tree_shaped t \<Longrightarrow> node_at t p = None \<Longrightarrow>
   \<forall>n<length p. \<forall>c. t (take n p) \<noteq> Some (File c) \<Longrightarrow>
   \<exists>t'. mkdir_fs True exist_ok p t = Inr t' \<and> (\<forall>n\<le>length p. node_at t' (take n p) = Some Dir)"
proof (induction "length p" arbitrary: p exist_ok)
  case 0
  then show ?case by (simp add: node_at_def)
next
  case (Suc k)
  then have ne: "p \<noteq> []" by auto
  let ?q = "butlast p"
  have lq: "length ?q = k" using Suc.hyps(2) by simp
  have q_take: "?q = take k p" using lq by (simp add: butlast_conv_take Suc.hyps(2) [symmetric])
  have nofile: "\<forall>n<length ?q. \<forall>c. t (take n ?q) \<noteq> Some (File c)"
    using Suc.prems(3) lq Suc.hyps(2) by (simp add: take_butlast)
  have qnf: "\<forall>c. node_at t ?q \<noteq> Some (File c)"
    using Suc.prems(3) Suc.hyps(2) q_take by (auto simp: node_at_def)
  show ?case
  proof (cases "node_at t ?q")
    case None
    from Suc.hyps(1) [OF lq [symmetric] Suc.prems(1) None nofile, of True]
    obtain t'' where rec: "mkdir_fs True True ?q t = Inr t''"
      and dirs: "\<forall>n\<le>length ?q. node_at t'' (take n ?q) = Some Dir" by blast
    have res: "mkdir_fs True exist_ok p t = Inr (t''(p \<mapsto> Dir))"
      using Suc.prems(2) None rec by (simp add: mkdir_fs_unfold [of True exist_ok p t])
    have "\<forall>n\<le>length p. node_at (t''(p \<mapsto> Dir)) (take n p) = Some Dir"
    proof (intro allI impI)
      fix n assume n: "n \<le> length p"
      show "node_at (t''(p \<mapsto> Dir)) (take n p) = Some Dir"
      proof (cases "n = length p")
        case True
        then show ?thesis using ne by (simp add: node_at_def)
      next
        case False
        with n have lt: "n < length p" by simp
        then have "n \<le> length ?q" by simp
        with dirs have "node_at t'' (take n ?q) = Some Dir" by blast
        moreover have "take n ?q = take n p" using lt by (simp add: take_butlast)
        moreover have "take n p \<noteq> p" using lt by (metis length_take min.absorb4 nat_neq_iff)
        ultimately show ?thesis by (auto simp: node_at_def)
      qed
    qed
    with res show ?thesis by blast
  next
    case (Some nd)
    with qnf have qd: "node_at t ?q = Some Dir" by (cases nd) auto
    have res: "mkdir_fs True exist_ok p t = Inr (t(p \<mapsto> Dir))"
      using Suc.prems(2) qd by (simp add: mkdir_fs_unfold [of True exist_ok p t])
    have up: "\<forall>n\<le>length ?q. node_at t (take n ?q) = Some Dir"
    proof (intro allI impI)
      fix n assume "n \<le> length ?q"
      then show "node_at t (take n ?q) = Some Dir"
      proof (induction "length ?q - n" arbitrary: n)
        case 0
        then show ?case using qd by simp
      next
        case (Suc d)
        then have "Suc n \<le> length ?q" by simp
        moreover have "d = length ?q - Suc n" using Suc.hyps(2) by simp
        ultimately have sd: "node_at t (take (Suc n) ?q) = Some Dir" using Suc.hyps(1) by blast
        have "length (take (Suc n) ?q) = Suc n" using \<open>Suc n \<le> length ?q\<close> by simp
        then have nn: "take (Suc n) ?q \<noteq> []" by (metis length_0_conv nat.simps(3))
        with sd have "t (take (Suc n) ?q) \<noteq> None" by (simp add: node_at_def)
        with Suc.prems(1) \<open>tree_shaped t\<close>
        have "node_at t (butlast (take (Suc n) ?q)) = Some Dir"
          unfolding tree_shaped_def by blast
        moreover have "butlast (take (Suc n) ?q) = take n ?q"
          using \<open>Suc n \<le> length ?q\<close> by (simp add: butlast_take)
        ultimately show ?case by simp
      qed
    qed
    have "\<forall>n\<le>length p. node_at (t(p \<mapsto> Dir)) (take n p) = Some Dir"
    proof (intro allI impI)
      fix n assume n: "n \<le> length p"
      show "node_at (t(p \<mapsto> Dir)) (take n p) = Some Dir"
      proof (cases "n = length p")
        case True
        then show ?thesis using ne by (simp add: node_at_def)
      next
        case False
        with n have lt: "n < length p" by simp
        then have "n \<le> length ?q" by simp
        with up have "node_at t (take n ?q) = Some Dir" by blast
        moreover have "take n ?q = take n p" using lt by (simp add: take_butlast)
        moreover have "take n p \<noteq> p" using lt by (metis length_take min.absorb4 nat_neq_iff)
        ultimately show ?thesis by (auto simp: node_at_def)
      qed
    qed
    with res show ?thesis by blast
  qed
qed

subsection \<open>Target resolution\<close>

lemmas action_defs =
  ret_def raise_err_def and_then_def try_except_def print_def input_def path_exists_def
  mkdir_def write_text_def shell_def spawn_def which_def platform_def run_def

lemma target_declined:
  assumes "node_at t base_path = None" "\<not> accepted a"
  shows "run_main base_path t (a # ls) e =
     (Inr (), \<lparr>fs = t, stdin = ls,
        out = [Ask (create_prompt base_path) (Some a), Print ''Aborting.''],
        clock = 0, env = e\<rparr>)"
  using assms
  by (simp add: run_main_def main_def target_resolution_def start_def action_defs accepted_def Let_def)

lemma target_accepted:
  assumes "node_at t base_path = None" "accepted a" "mkdir_fs True False base_path t = Inr t'"
  shows "run_main base_path t (a # ls) e =
     pipeline base_path (path_name base_path)
       \<lparr>fs = t', stdin = ls, out = [Ask (create_prompt base_path) (Some a)], clock = 0, env = e\<rparr>"
  using assms
  by (simp add: run_main_def main_def target_resolution_def start_def action_defs accepted_def Let_def)

text \<open>
  C6: when the target path does not exist and the creation prompt is declined, the program
  prints the abort notice, leaves the file tree as it was and returns normally (exit
  status 0). When the prompt is accepted (in a tree where no ancestor of the target is a
  regular file), every directory on the way to the target exists before the rest of the
  pipeline starts, and nothing that existed is changed.
\<close>

theorem declined_creation_aborts:
  assumes "node_at t base_path = None"
  shows "(\<not> accepted a \<longrightarrow>
            run_main base_path t (a # ls) e =
              (Inr (), \<lparr>fs = t, stdin = ls,
                 out = [Ask (create_prompt base_path) (Some a), Print ''Aborting.''],
                 clock = 0, env = e\<rparr>)
            \<and> exit_status (fst (run_main base_path t (a # ls) e)) = 0)
       \<and> (accepted a \<and> tree_shaped t
            \<and> (\<forall>n<length base_path. \<forall>c. t (take n base_path) \<noteq> Some (File c)) \<longrightarrow>
            (\<exists>t'. (\<forall>n\<le>length base_path. node_at t' (take n base_path) = Some Dir)
               \<and> (\<forall>q. t q \<noteq> None \<longrightarrow> t' q = t q)
               \<and> run_main base_path t (a # ls) e =
                   pipeline base_path (path_name base_path)
                     \<lparr>fs = t', stdin = ls, out = [Ask (create_prompt base_path) (Some a)],
                      clock = 0, env = e\<rparr>))"
proof (intro conjI impI)
  assume "\<not> accepted a"
  with assms show "run_main base_path t (a # ls) e =
              (Inr (), \<lparr>fs = t, stdin = ls,
                 out = [Ask (create_prompt base_path) (Some a), Print ''Aborting.''],
                 clock = 0, env = e\<rparr>)"
    by (rule target_declined)
  then show "exit_status (fst (run_main base_path t (a # ls) e)) = 0" by simp
next
  assume h: "accepted a \<and> tree_shaped t
            \<and> (\<forall>n<length base_path. \<forall>c. t (take n base_path) \<noteq> Some (File c))"
  with assms mkdir_fs_chain [of t base_path False]
  obtain t' where m: "mkdir_fs True False base_path t = Inr t'"
    and d: "\<forall>n\<le>length base_path. node_at t' (take n base_path) = Some Dir" by blast
  from mkdir_fs_result [OF m] have k: "\<forall>q. t q \<noteq> None \<longrightarrow> t' q = t q" by blast
  from target_accepted [OF assms _ m] h d k
  show "\<exists>t'. (\<forall>n\<le>length base_path. node_at t' (take n base_path) = Some Dir)
               \<and> (\<forall>q. t q \<noteq> None \<longrightarrow> t' q = t q)
               \<and> run_main base_path t (a # ls) e =
                   pipeline base_path (path_name base_path)
                     \<lparr>fs = t', stdin = ls, out = [Ask (create_prompt base_path) (Some a)],
                      clock = 0, env = e\<rparr>"
    by blast
qed

lemma tree_shaped_empty: "tree_shaped Map.empty"
  by (simp add: tree_shaped_def)

theorem declined_creation_aborts_witness:
  "node_at Map.empty [''demo''] = None \<and> \<not> accepted ''n'' \<and> accepted ''y''
   \<and> tree_shaped Map.empty
   \<and> run_main [''demo''] Map.empty [''n'', ''x''] quiet_env =
       (Inr (), \<lparr>fs = Map.empty, stdin = [''x''],
          out = [Ask (create_prompt [''demo'']) (Some ''n''), Print ''Aborting.''],
          clock = 0, env = quiet_env\<rparr>)
   \<and> (\<exists>t'. node_at t' [''demo''] = Some Dir
         \<and> run_main [''demo''] Map.empty [''y'', ''x''] quiet_env =
            pipeline [''demo''] ''demo''
              \<lparr>fs = t', stdin = [''x''], out = [Ask (create_prompt [''demo'']) (Some ''y'')],
               clock = 0, env = quiet_env\<rparr>)"
proof -
  have n: "node_at Map.empty [''demo''] = None" by (simp add: node_at_def)
  have a1: "\<not> accepted ''n''" and a2: "accepted ''y''" by code_simp+
  have f: "\<forall>n<length [''demo'']. \<forall>c. (Map.empty :: filesystem) (take n [''demo'']) \<noteq> Some (File c)"
    by simp
  from declined_creation_aborts [OF n, of "''n''" "[''x'']" quiet_env] a1
  have d: "run_main [''demo''] Map.empty [''n'', ''x''] quiet_env =
       (Inr (), \<lparr>fs = Map.empty, stdin = [''x''],
          out = [Ask (create_prompt [''demo'']) (Some ''n''), Print ''Aborting.''],
          clock = 0, env = quiet_env\<rparr>)" by simp
  from declined_creation_aborts [OF n, of "''y''" "[''x'']" quiet_env] a2 tree_shaped_empty f
  obtain t' where "\<forall>n\<le>length [''demo'']. node_at t' (take n [''demo'']) = Some Dir"
    and r: "run_main [''demo''] Map.empty [''y'', ''x''] quiet_env =
            pipeline [''demo''] (path_name [''demo''])
              \<lparr>fs = t', stdin = [''x''], out = [Ask (create_prompt [''demo'']) (Some ''y'')],
               clock = 0, env = quiet_env\<rparr>" by blast
  then have "node_at t' [''demo''] = Some Dir" by force
  with r have "\<exists>t'. node_at t' [''demo''] = Some Dir
         \<and> run_main [''demo''] Map.empty [''y'', ''x''] quiet_env =
            pipeline [''demo''] ''demo''
              \<lparr>fs = t', stdin = [''x''], out = [Ask (create_prompt [''demo'']) (Some ''y'')],
               clock = 0, env = quiet_env\<rparr>" by (auto simp: path_name_def)
  with n a1 a2 tree_shaped_empty d show ?thesis by blast
qed

subsection \<open>Visibility and the push command\<close>

lemma visibility_of_cases:
  "visibility_of a = (if py_lower (py_strip a) = ''public'' then ''public'' else ''private'')"
  by (auto simp: visibility_of_def Let_def)

lemma push_authenticated:
  assumes "on_path (env w) (clock w) ''gh''"
    and "exit_code (env w) (Suc (clock w)) ''gh auth status'' = 0"
    and "stdin w = a # ls"
    and "node_at (fs w) base_path = Some Dir"
  shows "push_to_github base_path name w =
     (let cmd = ''gh repo create '' @ name @ '' --source=. --'' @ visibility_of a @ '' --push'';
          rc = exit_code (env w) (Suc (Suc (clock w))) cmd
      in (if rc \<noteq> 0 then Inl (CalledProcessError cmd rc) else Inr (),
          w\<lparr>stdin := ls,
            out := out w @
              [Exec ''gh --version'' None (exit_code (env w) (clock w) ''gh --version''),
               Exec ''gh auth status'' None 0,
               Ask visibility_prompt (Some a),
               Exec cmd (Some base_path) rc],
            clock := Suc (Suc (Suc (clock w)))\<rparr>))"
  using assms
  by (simp add: push_to_github_def gh_authenticated_def gh_repo_create_cmd_def action_defs Let_def)

text \<open>
  C7, as stated, fails: the answer is stripped and lowercased before it is compared, so
  the input \<open>PUBLIC\<close>, which is neither \<open>public\<close> nor \<open>private\<close>, gives a public
  repository.
\<close>

theorem visibility_raw_input_counterexample:
  "''PUBLIC'' \<noteq> ''public'' \<and> ''PUBLIC'' \<noteq> ''private'' \<and> visibility_of ''PUBLIC'' = ''public''
   \<and> visibility_of ''PUBLIC'' \<noteq> ''private''"
  by code_simp

text \<open>
  C7, amended: the visibility is \<open>public\<close> when the answer, stripped and lowercased, is
  \<open>public\<close>, and \<open>private\<close> for every other answer, the empty one included. With the
  CLI present and authenticated, the remote repository is then created from the current
  directory with that visibility and pushed by one command, run in the target directory;
  a non-zero exit of that command is raised.
\<close>

theorem visibility_and_push_command:
  "visibility_of a = (if py_lower (py_strip a) = ''public'' then ''public'' else ''private'')
   \<and> visibility_of [] = ''private''
   \<and> (on_path (env w) (clock w) ''gh''
        \<and> exit_code (env w) (Suc (clock w)) ''gh auth status'' = 0
        \<and> stdin w = a # ls \<and> node_at (fs w) base_path = Some Dir \<longrightarrow>
       push_to_github base_path name w =
         (let cmd = ''gh repo create '' @ name @ '' --source=. --'' @ visibility_of a @ '' --push'';
              rc = exit_code (env w) (Suc (Suc (clock w))) cmd
          in (if rc \<noteq> 0 then Inl (CalledProcessError cmd rc) else Inr (),
              w\<lparr>stdin := ls,
                out := out w @
                  [Exec ''gh --version'' None (exit_code (env w) (clock w) ''gh --version''),
                   Exec ''gh auth status'' None 0,
                   Ask visibility_prompt (Some a),
                   Exec cmd (Some base_path) rc],
                clock := Suc (Suc (Suc (clock w)))\<rparr>)))"
proof (intro conjI impI)
  show "visibility_of a = (if py_lower (py_strip a) = ''public'' then ''public'' else ''private'')"
    by (rule visibility_of_cases)
  show "visibility_of [] = ''private''" by code_simp
next
  assume "on_path (env w) (clock w) ''gh''
        \<and> exit_code (env w) (Suc (clock w)) ''gh auth status'' = 0
        \<and> stdin w = a # ls \<and> node_at (fs w) base_path = Some Dir"
  then show "push_to_github base_path name w =
         (let cmd = ''gh repo create '' @ name @ '' --source=. --'' @ visibility_of a @ '' --push'';
              rc = exit_code (env w) (Suc (Suc (clock w))) cmd
          in (if rc \<noteq> 0 then Inl (CalledProcessError cmd rc) else Inr (),
              w\<lparr>stdin := ls,
                out := out w @
                  [Exec ''gh --version'' None (exit_code (env w) (clock w) ''gh --version''),
                   Exec ''gh auth status'' None 0,
                   Ask visibility_prompt (Some a),
                   Exec cmd (Some base_path) rc],
                clock := Suc (Suc (Suc (clock w)))\<rparr>))"
    using push_authenticated by blast
qed

theorem visibility_and_push_command_witness:
  "on_path (env (start (Map.empty([''demo''] \<mapsto> Dir)) [''Public '', ''x''] ready_env)) 0 ''gh''
   \<and> visibility_of ''Public '' = ''public''
   \<and> visibility_of ''internal'' = ''private''
   \<and> push_to_github [''demo''] ''demo''
        (start (Map.empty([''demo''] \<mapsto> Dir)) [''Public '', ''x''] ready_env) =
      (Inr (),
       \<lparr>fs = Map.empty([''demo''] \<mapsto> Dir), stdin = [''x''],
        out = [Exec ''gh --version'' None 0, Exec ''gh auth status'' None 0,
               Ask visibility_prompt (Some ''Public ''),
               Exec ''gh repo create demo --source=. --public --push'' (Some [''demo'']) 0],
        clock = 3, env = ready_env\<rparr>)"
proof -
  let ?w = "start (Map.empty([''demo''] \<mapsto> Dir)) [''Public '', ''x''] ready_env"
  have v: "visibility_of ''Public '' = ''public''" "visibility_of ''internal'' = ''private''"
    by code_simp+
  have h: "on_path (env ?w) (clock ?w) ''gh''
        \<and> exit_code (env ?w) (Suc (clock ?w)) ''gh auth status'' = 0
        \<and> stdin ?w = ''Public '' # [''x''] \<and> node_at (fs ?w) [''demo''] = Some Dir"
    by (simp add: start_def ready_env_def node_at_def)
  from visibility_and_push_command [of "''Public ''" ?w "[''x'']" "[''demo'']" "''demo''"] h
  have "push_to_github [''demo''] ''demo'' ?w =
         (let cmd = ''gh repo create '' @ ''demo'' @ '' --source=. --'' @ visibility_of ''Public '' @ '' --push'';
              rc = exit_code (env ?w) (Suc (Suc (clock ?w))) cmd
          in (if rc \<noteq> 0 then Inl (CalledProcessError cmd rc) else Inr (),
              ?w\<lparr>stdin := [''x''],
                out := out ?w @
                  [Exec ''gh --version'' None (exit_code (env ?w) (clock ?w) ''gh --version''),
                   Exec ''gh auth status'' None 0,
                   Ask visibility_prompt (Some ''Public ''),
                   Exec cmd (Some [''demo'']) rc],
                clock := Suc (Suc (Suc (clock ?w)))\<rparr>))"
    by blast
  then have "push_to_github [''demo''] ''demo'' ?w =
      (Inr (),
       \<lparr>fs = Map.empty([''demo''] \<mapsto> Dir), stdin = [''x''],
        out = [Exec ''gh --version'' None 0, Exec ''gh auth status'' None 0,
               Ask visibility_prompt (Some ''Public ''),
               Exec ''gh repo create demo --source=. --public --push'' (Some [''demo'']) 0],
        clock = 3, env = ready_env\<rparr>)"
    by (simp add: v start_def ready_env_def Let_def numeral_3_eq_3)
  with h v show ?thesis by (simp add: start_def)
qed

subsection \<open>The six yes/no prompts\<close>

lemma site_create:
  assumes "node_at (fs w) base_path = None" "stdin w = a # ls"
  shows "target_resolution base_path w =
     (if accepted a
      then and_then (mkdir base_path True False) (\<lambda>u. ret True)
             (w\<lparr>stdin := ls, out := out w @ [Ask (create_prompt base_path) (Some a)]\<rparr>)
      else (Inr False,
            w\<lparr>stdin := ls,
              out := out w @ [Ask (create_prompt base_path) (Some a), Print ''Aborting.'']\<rparr>))"
  using assms
  by (simp add: target_resolution_def action_defs accepted_def Let_def)

lemma site_web:
  assumes "stdin w = a # ls"
  shows "pipeline base_path name w =
     and_then (create_project_structure base_path name (accepted a))
       (\<lambda>u. later_stages base_path name)
       (w\<lparr>stdin := ls, out := out w @ [Ask web_prompt (Some a)]\<rparr>)"
  using assms
  by (simp add: pipeline_def input_def and_then_def accepted_def Let_def)

lemma site_overwrite:
  assumes "node_at (fs w) filepath \<noteq> None" "stdin w = a # ls"
  shows "safe_write_file filepath content w =
     (if accepted a
      then and_then (write_text filepath content)
             (\<lambda>u. print (''Created: '' @ path_str filepath))
             (w\<lparr>stdin := ls, out := out w @ [Ask (overwrite_prompt filepath) (Some a)]\<rparr>)
      else (Inr (),
            w\<lparr>stdin := ls,
              out := out w @ [Ask (overwrite_prompt filepath) (Some a),
                Print (''Skipping '' @ apostrophe @ path_name filepath @ apostrophe)]\<rparr>))"
  using assms
  by (simp add: safe_write_file_def path_exists_def input_def print_def ret_def and_then_def
        accepted_def Let_def)

lemma site_install:
  assumes "\<not> on_path (env w) (clock w) ''gh''" "stdin w = a # ls"
  shows "hosting_stage base_path name w =
     (if accepted a
      then and_then install_github_cli
             (\<lambda>gh_ready. if gh_ready then push_offer base_path name else ret ())
             (w\<lparr>stdin := ls, out := out w @ [Which ''gh'' False, Ask install_prompt (Some a)]\<rparr>)
      else (Inr (),
            w\<lparr>stdin := ls, out := out w @ [Which ''gh'' False, Ask install_prompt (Some a)]\<rparr>))"
  using assms
  by (simp add: hosting_stage_def github_cli_installed_def which_def input_def ret_def
        and_then_def accepted_def Let_def)

lemma site_push:
  assumes "stdin w = a # ls"
  shows "push_offer base_path name w =
     (if accepted a
      then push_to_github base_path name
             (w\<lparr>stdin := ls, out := out w @ [Ask push_prompt (Some a)]\<rparr>)
      else (Inr (), w\<lparr>stdin := ls, out := out w @ [Ask push_prompt (Some a)]\<rparr>))"
  using assms
  by (simp add: push_offer_def input_def ret_def and_then_def accepted_def Let_def)

lemma site_login_declined:
  assumes "on_path (env w) (clock w) ''gh''"
    and "exit_code (env w) (Suc (clock w)) ''gh auth status'' \<noteq> 0"
    and "stdin w = a # ls" and "\<not> accepted a"
  shows "push_to_github base_path name w =
     (Inr (),
      w\<lparr>stdin := ls,
        out := out w @
          [Exec ''gh --version'' None (exit_code (env w) (clock w) ''gh --version''),
           Exec ''gh auth status'' None (exit_code (env w) (Suc (clock w)) ''gh auth status''),
           Print (warning_sign @ '' GitHub CLI is not authenticated.''),
           Ask login_prompt (Some a),
           Print (cross_mark @ '' Skipping GitHub push due to lack of authentication.'')],
        clock := Suc (Suc (clock w))\<rparr>)"
  using assms
  by (simp add: push_to_github_def gh_authenticated_def action_defs accepted_def Let_def)

subsection \<open>Actions that only append events of one kind\<close>

lemma onlyD:
  "only Q m \<Longrightarrow> m w = (r, w') \<Longrightarrow> \<exists>evs. out w' = out w @ evs \<and> list_all Q evs"
  unfolding only_def by (metis snd_conv)

lemma and_thenE:
  assumes "and_then m f w = (r, w')"
  obtains (err) e where "m w = (Inl e, w')" "r = Inl e"
        | (ok) x w1 where "m w = (Inr x, w1)" "f x w1 = (r, w')"
  using assms unfolding and_then_def by (auto split: prod.splits sum.splits)

lemma only_weaken: "only Q m \<Longrightarrow> (\<And>e. Q e \<Longrightarrow> Q' e) \<Longrightarrow> only Q' m"
  unfolding only_def list_all_iff by meson

lemma only_ret: "only Q (ret x)"
  by (simp add: only_def ret_def)

lemma only_raise: "only Q (raise_err e)"
  by (simp add: only_def raise_err_def)

lemma only_print: "Q (Print s) \<Longrightarrow> only Q (print s)"
  by (simp add: only_def print_def)

lemma only_input: "(\<And>x. Q (Ask p x)) \<Longrightarrow> only Q (input p)"
  by (simp add: only_def input_def split: list.split)

lemma only_path_exists: "only Q (path_exists p)"
  by (simp add: only_def path_exists_def)

lemma only_mkdir: "only Q (mkdir p a b)"
  by (simp add: only_def mkdir_def split: sum.split)

lemma only_write_text: "only Q (write_text p c)"
  by (simp add: only_def write_text_def split: option.split node.split)

lemma only_shell: "(\<And>rc. Q (Exec cmd cwd rc)) \<Longrightarrow> only Q (shell cmd cwd)"
  by (auto simp: only_def shell_def Let_def split: option.split node.split)

lemma only_spawn: "(\<And>rc. Q (Exec (prog @ '' '' @ arg) None rc)) \<Longrightarrow> only Q (spawn prog arg)"
  by (simp add: only_def spawn_def Let_def)

lemma only_which: "(\<And>b. Q (Which prog b)) \<Longrightarrow> only Q (which prog)"
  by (simp add: only_def which_def Let_def)

lemma only_platform: "only Q platform"
  by (simp add: only_def platform_def)

lemma only_and_then:
  assumes "only Q m" "\<And>x. only Q (f x)"
  shows "only Q (and_then m f)"
  unfolding only_def
proof
  fix w
  obtain r1 w1 where m: "m w = (r1, w1)" by (cases "m w")
  from onlyD [OF assms(1) m] obtain evs1 where
    e1: "out w1 = out w @ evs1" "list_all Q evs1" by blast
  show "\<exists>evs. out (snd (and_then m f w)) = out w @ evs \<and> list_all Q evs"
  proof (cases r1)
    case (Inl e)
    with m e1 show ?thesis by (auto simp: and_then_def)
  next
    case (Inr x)
    obtain r2 w2 where f: "f x w1 = (r2, w2)" by (cases "f x w1")
    from onlyD [OF assms(2) f] obtain evs2 where
      e2: "out w2 = out w1 @ evs2" "list_all Q evs2" by blast
    have "and_then m f w = (r2, w2)" using m Inr f by (simp add: and_then_def)
    with e1 e2 show ?thesis by (auto intro!: exI [of _ "evs1 @ evs2"])
  qed
qed

lemma only_try_except:
  assumes "only Q m" "only Q h"
  shows "only Q (try_except m caught h)"
  unfolding only_def
proof
  fix w
  obtain r1 w1 where m: "m w = (r1, w1)" by (cases "m w")
  from onlyD [OF assms(1) m] obtain evs1 where
    e1: "out w1 = out w @ evs1" "list_all Q evs1" by blast
  obtain r2 w2 where h: "h w1 = (r2, w2)" by (cases "h w1")
  from onlyD [OF assms(2) h] obtain evs2 where
    e2: "out w2 = out w1 @ evs2" "list_all Q evs2" by blast
  show "\<exists>evs. out (snd (try_except m caught h w)) = out w @ evs \<and> list_all Q evs"
  proof (cases r1)
    case (Inl e)
    show ?thesis
    proof (cases "caught e")
      case True
      with m Inl h have "try_except m caught h w = (r2, w2)" by (simp add: try_except_def)
      with e1 e2 show ?thesis by (auto intro!: exI [of _ "evs1 @ evs2"])
    next
      case False
      with m Inl have "try_except m caught h w = (Inl e, w1)" by (simp add: try_except_def)
      with e1 show ?thesis by auto
    qed
  next
    case (Inr x)
    with m have "try_except m caught h w = (Inr x, w1)" by (simp add: try_except_def)
    with e1 show ?thesis by auto
  qed
qed

lemma only_if: "only Q m1 \<Longrightarrow> only Q m2 \<Longrightarrow> only Q (if b then m1 else m2)"
  by simp

lemma only_run: "(\<And>rc. Q (Exec cmd cwd rc)) \<Longrightarrow> only Q (run cmd cwd)"
  unfolding run_def by (intro only_and_then only_shell only_if only_raise only_ret)

lemma only_for_each: "(\<And>x. only Q (body x)) \<Longrightarrow> only Q (for_each xs body)"
  by (induction xs) (auto intro: only_ret only_and_then)

lemmas only_intros =
  only_and_then only_try_except only_if only_ret only_raise only_print only_input
  only_path_exists only_mkdir only_write_text only_run only_shell only_spawn only_which
  only_platform only_for_each

lemma site_login_accepted:
  assumes "on_path (env w) (clock w) ''gh''"
    and "exit_code (env w) (Suc (clock w)) ''gh auth status'' \<noteq> 0"
    and "stdin w = a # ls" and "accepted a"
  shows "take (length (out w) + 5) (out (snd (push_to_github base_path name w))) =
     out w @
       [Exec ''gh --version'' None (exit_code (env w) (clock w) ''gh --version''),
        Exec ''gh auth status'' None (exit_code (env w) (Suc (clock w)) ''gh auth status''),
        Print (warning_sign @ '' GitHub CLI is not authenticated.''),
        Ask login_prompt (Some a),
        Exec ''gh auth login'' None (exit_code (env w) (Suc (Suc (clock w))) ''gh auth login'')]"
  using assms
  by (simp add: push_to_github_def gh_authenticated_def action_defs accepted_def Let_def
        split: list.split option.split node.split)

text \<open>
  C9: each of the six yes/no prompts (directory creation, web frontend, per-file
  overwrite, CLI install, login, push) takes the branch of acceptance exactly when the
  answer, stripped of surrounding whitespace and lowercased, is \<open>y\<close>: that is, when the
  answer is one \<open>y\<close> or \<open>Y\<close> between whitespace. Every other answer, the empty one and
  \<open>yes\<close> included, takes the branch of a decline.
\<close>

theorem yes_no_prompts:
  "accepted a =
     (\<exists>pre c post. a = pre @ c # post \<and> list_all py_isspace pre \<and> list_all py_isspace post
        \<and> (c = CHR ''y'' \<or> c = CHR ''Y''))
   \<and> \<not> accepted [] \<and> \<not> accepted ''yes''
   \<and> (stdin w = a # ls \<longrightarrow>
        (node_at (fs w) base_path = None \<longrightarrow>
           target_resolution base_path w =
             (if accepted a
              then and_then (mkdir base_path True False) (\<lambda>u. ret True)
                     (w\<lparr>stdin := ls, out := out w @ [Ask (create_prompt base_path) (Some a)]\<rparr>)
              else (Inr False,
                    w\<lparr>stdin := ls,
                      out := out w @ [Ask (create_prompt base_path) (Some a),
                        Print ''Aborting.'']\<rparr>)))
      \<and> pipeline base_path name w =
           and_then (create_project_structure base_path name (accepted a))
             (\<lambda>u. later_stages base_path name)
             (w\<lparr>stdin := ls, out := out w @ [Ask web_prompt (Some a)]\<rparr>)
      \<and> (node_at (fs w) filepath \<noteq> None \<longrightarrow>
           safe_write_file filepath content w =
             (if accepted a
              then and_then (write_text filepath content)
                     (\<lambda>u. print (''Created: '' @ path_str filepath))
                     (w\<lparr>stdin := ls,
                       out := out w @ [Ask (overwrite_prompt filepath) (Some a)]\<rparr>)
              else (Inr (),
                    w\<lparr>stdin := ls,
                      out := out w @ [Ask (overwrite_prompt filepath) (Some a),
                        Print (''Skipping '' @ apostrophe @ path_name filepath @ apostrophe)]\<rparr>)))
      \<and> (\<not> on_path (env w) (clock w) ''gh'' \<longrightarrow>
           hosting_stage base_path name w =
             (if accepted a
              then and_then install_github_cli
                     (\<lambda>gh_ready. if gh_ready then push_offer base_path name else ret ())
                     (w\<lparr>stdin := ls,
                       out := out w @ [Which ''gh'' False, Ask install_prompt (Some a)]\<rparr>)
              else (Inr (),
                    w\<lparr>stdin := ls,
                      out := out w @ [Which ''gh'' False, Ask install_prompt (Some a)]\<rparr>)))
      \<and> push_offer base_path name w =
           (if accepted a
            then push_to_github base_path name
                   (w\<lparr>stdin := ls, out := out w @ [Ask push_prompt (Some a)]\<rparr>)
            else (Inr (), w\<lparr>stdin := ls, out := out w @ [Ask push_prompt (Some a)]\<rparr>))
      \<and> (on_path (env w) (clock w) ''gh''
           \<and> exit_code (env w) (Suc (clock w)) ''gh auth status'' \<noteq> 0 \<longrightarrow>
           (if accepted a
            then take (length (out w) + 5) (out (snd (push_to_github base_path name w))) =
               out w @
                 [Exec ''gh --version'' None (exit_code (env w) (clock w) ''gh --version''),
                  Exec ''gh auth status'' None
                    (exit_code (env w) (Suc (clock w)) ''gh auth status''),
                  Print (warning_sign @ '' GitHub CLI is not authenticated.''),
                  Ask login_prompt (Some a),
                  Exec ''gh auth login'' None
                    (exit_code (env w) (Suc (Suc (clock w))) ''gh auth login'')]
            else push_to_github base_path name w =
               (Inr (),
                w\<lparr>stdin := ls,
                  out := out w @
                    [Exec ''gh --version'' None (exit_code (env w) (clock w) ''gh --version''),
                     Exec ''gh auth status'' None
                       (exit_code (env w) (Suc (clock w)) ''gh auth status''),
                     Print (warning_sign @ '' GitHub CLI is not authenticated.''),
                     Ask login_prompt (Some a),
                     Print (cross_mark
                       @ '' Skipping GitHub push due to lack of authentication.'')],
                  clock := Suc (Suc (clock w))\<rparr>))))"
proof (intro conjI impI)
  show "accepted a =
     (\<exists>pre c post. a = pre @ c # post \<and> list_all py_isspace pre \<and> list_all py_isspace post
        \<and> (c = CHR ''y'' \<or> c = CHR ''Y''))"
    by (rule accepted_iff)
  show "\<not> accepted []" "\<not> accepted ''yes''" by (rule accepted_examples)+
next
  assume "node_at (fs w) base_path = None" "stdin w = a # ls"
  then show "target_resolution base_path w =
             (if accepted a
              then and_then (mkdir base_path True False) (\<lambda>u. ret True)
                     (w\<lparr>stdin := ls, out := out w @ [Ask (create_prompt base_path) (Some a)]\<rparr>)
              else (Inr False,
                    w\<lparr>stdin := ls,
                      out := out w @ [Ask (create_prompt base_path) (Some a),
                        Print ''Aborting.'']\<rparr>))"
    by (rule site_create)
next
  assume "stdin w = a # ls"
  then show "pipeline base_path name w =
           and_then (create_project_structure base_path name (accepted a))
             (\<lambda>u. later_stages base_path name)
             (w\<lparr>stdin := ls, out := out w @ [Ask web_prompt (Some a)]\<rparr>)"
    by (rule site_web)
next
  assume "node_at (fs w) filepath \<noteq> None" "stdin w = a # ls"
  then show "safe_write_file filepath content w =
             (if accepted a
              then and_then (write_text filepath content)
                     (\<lambda>u. print (''Created: '' @ path_str filepath))
                     (w\<lparr>stdin := ls,
                       out := out w @ [Ask (overwrite_prompt filepath) (Some a)]\<rparr>)
              else (Inr (),
                    w\<lparr>stdin := ls,
                      out := out w @ [Ask (overwrite_prompt filepath) (Some a),
                        Print (''Skipping '' @ apostrophe @ path_name filepath @ apostrophe)]\<rparr>))"
    by (rule site_overwrite)
next
  assume "\<not> on_path (env w) (clock w) ''gh''" "stdin w = a # ls"
  then show "hosting_stage base_path name w =
             (if accepted a
              then and_then install_github_cli
                     (\<lambda>gh_ready. if gh_ready then push_offer base_path name else ret ())
                     (w\<lparr>stdin := ls,
                       out := out w @ [Which ''gh'' False, Ask install_prompt (Some a)]\<rparr>)
              else (Inr (),
                    w\<lparr>stdin := ls,
                      out := out w @ [Which ''gh'' False, Ask install_prompt (Some a)]\<rparr>))"
    by (rule site_install)
next
  assume "stdin w = a # ls"
  then show "push_offer base_path name w =
           (if accepted a
            then push_to_github base_path name
                   (w\<lparr>stdin := ls, out := out w @ [Ask push_prompt (Some a)]\<rparr>)
            else (Inr (), w\<lparr>stdin := ls, out := out w @ [Ask push_prompt (Some a)]\<rparr>))"
    by (rule site_push)
next
  assume s: "stdin w = a # ls"
    and h: "on_path (env w) (clock w) ''gh''
           \<and> exit_code (env w) (Suc (clock w)) ''gh auth status'' \<noteq> 0"
  show "if accepted a
            then take (length (out w) + 5) (out (snd (push_to_github base_path name w))) =
               out w @
                 [Exec ''gh --version'' None (exit_code (env w) (clock w) ''gh --version''),
                  Exec ''gh auth status'' None
                    (exit_code (env w) (Suc (clock w)) ''gh auth status''),
                  Print (warning_sign @ '' GitHub CLI is not authenticated.''),
                  Ask login_prompt (Some a),
                  Exec ''gh auth login'' None
                    (exit_code (env w) (Suc (Suc (clock w))) ''gh auth login'')]
            else push_to_github base_path name w =
               (Inr (),
                w\<lparr>stdin := ls,
                  out := out w @
                    [Exec ''gh --version'' None (exit_code (env w) (clock w) ''gh --version''),
                     Exec ''gh auth status'' None
                       (exit_code (env w) (Suc (clock w)) ''gh auth status''),
                     Print (warning_sign @ '' GitHub CLI is not authenticated.''),
                     Ask login_prompt (Some a),
                     Print (cross_mark
                       @ '' Skipping GitHub push due to lack of authentication.'')],
                  clock := Suc (Suc (clock w))\<rparr>)"
  proof (cases "accepted a")
    case True
    with site_login_accepted [of w a ls base_path name] s h show ?thesis by simp
  next
    case False
    with site_login_declined [of w a ls base_path name] s h show ?thesis by simp
  qed
qed

theorem yes_no_prompts_witness:
  "stdin (start Map.empty [''yes'', ''y''] quiet_env) = ''yes'' # [''y'']
   \<and> node_at (fs (start Map.empty [''yes'', ''y''] quiet_env)) [''demo''] = None
   \<and> \<not> accepted ''yes''
   \<and> target_resolution [''demo''] (start Map.empty [''yes'', ''y''] quiet_env) =
       (Inr False,
        \<lparr>fs = Map.empty, stdin = [''y''],
         out = [Ask (create_prompt [''demo'']) (Some ''yes''), Print ''Aborting.''],
         clock = 0, env = quiet_env\<rparr>)
   \<and> push_offer [''demo''] ''demo'' (start Map.empty [''yes'', ''y''] quiet_env) =
       (Inr (),
        \<lparr>fs = Map.empty, stdin = [''y''], out = [Ask push_prompt (Some ''yes'')],
         clock = 0, env = quiet_env\<rparr>)"
proof -
  let ?w = "start Map.empty [''yes'', ''y''] quiet_env"
  have s: "stdin ?w = ''yes'' # [''y'']" by (simp add: start_def)
  have n: "node_at (fs ?w) [''demo''] = None" by (simp add: start_def node_at_def)
  have na: "\<not> accepted ''yes''" by (rule accepted_examples)
  from yes_no_prompts [of "''yes''" ?w "[''y'']" "[''demo'']" "''demo''"] s n na
  have "target_resolution [''demo''] ?w =
      (Inr False,
       ?w\<lparr>stdin := [''y''],
          out := out ?w @ [Ask (create_prompt [''demo'']) (Some ''yes''), Print ''Aborting.'']\<rparr>)"
    and "push_offer [''demo''] ''demo'' ?w =
      (Inr (), ?w\<lparr>stdin := [''y''], out := out ?w @ [Ask push_prompt (Some ''yes'')]\<rparr>)"
    by simp_all
  then show ?thesis using s n na by (simp add: start_def)
qed

subsection \<open>The stages after the scaffold\<close>

lemma create_venv_and_install_cases:
  assumes "create_venv_and_install base_path w = (r, w')"
  obtains
    (cwd) "out w' = out w" "r = Inl FileNotFoundError \<or> r = Inl NotADirectoryError"
  | (failed) c rc zs where
      "r = Inl (CalledProcessError c rc)" "rc \<noteq> 0" "c \<in> set provision_cmds"
      "out w' = out w @ zs @ [Exec c (Some base_path) rc]"
      "\<forall>z\<in>set zs. \<exists>c'. z = Exec c' (Some base_path) 0 \<and> c' \<in> set provision_cmds"
  | (ok) "r = Inr ()" "fs w' = fs w" "stdin w' = stdin w" "env w' = env w"
      "clock w' = clock w + 3"
      "out w' = out w @ map (\<lambda>c. Exec c (Some base_path) 0) provision_cmds"
proof (cases "node_at (fs w) base_path")
  case None
  with assms have "out w' = out w" "r = Inl FileNotFoundError"
    by (auto simp: create_venv_and_install_def action_defs)
  then show ?thesis using cwd by blast
next
  case (Some nd)
  show ?thesis
  proof (cases nd)
    case (File x)
    with Some assms have "out w' = out w" "r = Inl NotADirectoryError"
      by (auto simp: create_venv_and_install_def action_defs)
    then show ?thesis using cwd by blast
  next
    case Dir
    let ?c1 = "''python3 -m venv .venv''"
    let ?c2 = "''./.venv/bin/pip install --upgrade pip''"
    let ?c3 = "''./.venv/bin/pip install -r requirements.txt -r requirements-dev.txt''"
    let ?r1 = "exit_code (env w) (clock w) ?c1"
    let ?r2 = "exit_code (env w) (Suc (clock w)) ?c2"
    let ?r3 = "exit_code (env w) (Suc (Suc (clock w))) ?c3"
    show ?thesis
    proof (cases "?r1 = 0")
      case False
      with Some Dir assms have "r = Inl (CalledProcessError ?c1 ?r1)"
        "out w' = out w @ [] @ [Exec ?c1 (Some base_path) ?r1]"
        by (auto simp: create_venv_and_install_def action_defs Let_def)
      then show ?thesis using failed [of ?c1 ?r1 "[]"] False by (simp add: provision_cmds_def)
    next
      case r1: True
      show ?thesis
      proof (cases "?r2 = 0")
        case False
        with r1 Some Dir assms have "r = Inl (CalledProcessError ?c2 ?r2)"
          "out w' = out w @ [Exec ?c1 (Some base_path) 0] @ [Exec ?c2 (Some base_path) ?r2]"
          by (auto simp: create_venv_and_install_def action_defs Let_def)
        then show ?thesis using failed [of ?c2 ?r2 "[Exec ?c1 (Some base_path) 0]"] False
          by (simp add: provision_cmds_def)
      next
        case r2: True
        show ?thesis
        proof (cases "?r3 = 0")
          case False
          with r1 r2 Some Dir assms have "r = Inl (CalledProcessError ?c3 ?r3)"
            "out w' = out w @ [Exec ?c1 (Some base_path) 0, Exec ?c2 (Some base_path) 0]
               @ [Exec ?c3 (Some base_path) ?r3]"
            by (auto simp: create_venv_and_install_def action_defs Let_def)
          then show ?thesis
            using failed [of ?c3 ?r3 "[Exec ?c1 (Some base_path) 0, Exec ?c2 (Some base_path) 0]"]
              False
            by (simp add: provision_cmds_def)
        next
          case r3: True
          with r1 r2 Some Dir assms have "r = Inr ()" "fs w' = fs w" "stdin w' = stdin w"
            "env w' = env w" "clock w' = clock w + 3"
            "out w' = out w @ map (\<lambda>c. Exec c (Some base_path) 0) provision_cmds"
            by (auto simp: create_venv_and_install_def action_defs Let_def provision_cmds_def)
          then show ?thesis using ok by blast
        qed
      qed
    qed
  qed
qed

lemma init_git_repo_cases:
  assumes "init_git_repo base_path w = (r, w')"
  obtains
    (cwd) "out w' = out w" "r = Inl FileNotFoundError \<or> r = Inl NotADirectoryError"
  | (init_failed) rc where
      "r = Inl (CalledProcessError ''git init'' rc)" "rc \<noteq> 0"
      "out w' = out w @ [Exec ''git init'' (Some base_path) rc]"
  | (add_failed) rc where
      "r = Inl (CalledProcessError ''git add .'' rc)" "rc \<noteq> 0"
      "out w' = out w @ [Exec ''git init'' (Some base_path) 0, Exec ''git add .'' (Some base_path) rc]"
  | (committed)
      "r = Inr ()" "fs w' = fs w" "stdin w' = stdin w"
      "out w' = out w @ [Exec ''git init'' (Some base_path) 0, Exec ''git add .'' (Some base_path) 0,
         Exec git_commit_cmd (Some base_path) 0]"
  | (commit_failed) rc where
      "r = Inr ()" "rc \<noteq> 0" "fs w' = fs w" "stdin w' = stdin w"
      "out w' = out w @ [Exec ''git init'' (Some base_path) 0, Exec ''git add .'' (Some base_path) 0,
         Exec git_commit_cmd (Some base_path) rc, Print git_commit_warning]"
proof (cases "node_at (fs w) base_path")
  case None
  with assms have "out w' = out w" "r = Inl FileNotFoundError"
    by (auto simp: init_git_repo_def action_defs)
  then show ?thesis using cwd by blast
next
  case (Some nd)
  show ?thesis
  proof (cases nd)
    case (File x)
    with Some assms have "out w' = out w" "r = Inl NotADirectoryError"
      by (auto simp: init_git_repo_def action_defs)
    then show ?thesis using cwd by blast
  next
    case Dir
    let ?r1 = "exit_code (env w) (clock w) ''git init''"
    let ?r2 = "exit_code (env w) (Suc (clock w)) ''git add .''"
    let ?r3 = "exit_code (env w) (Suc (Suc (clock w))) git_commit_cmd"
    show ?thesis
    proof (cases "?r1 = 0")
      case False
      with Some Dir assms have "r = Inl (CalledProcessError ''git init'' ?r1)"
        "out w' = out w @ [Exec ''git init'' (Some base_path) ?r1]"
        by (auto simp: init_git_repo_def action_defs Let_def)
      then show ?thesis using init_failed False by blast
    next
      case r1: True
      show ?thesis
      proof (cases "?r2 = 0")
        case False
        with r1 Some Dir assms have "r = Inl (CalledProcessError ''git add .'' ?r2)"
          "out w' = out w @ [Exec ''git init'' (Some base_path) 0,
             Exec ''git add .'' (Some base_path) ?r2]"
          by (auto simp: init_git_repo_def action_defs Let_def)
        then show ?thesis using add_failed False by blast
      next
        case r2: True
        show ?thesis
        proof (cases "?r3 = 0")
          case False
          with r1 r2 Some Dir assms have "r = Inr ()" "fs w' = fs w" "stdin w' = stdin w"
            "out w' = out w @ [Exec ''git init'' (Some base_path) 0,
               Exec ''git add .'' (Some base_path) 0,
               Exec git_commit_cmd (Some base_path) ?r3, Print git_commit_warning]"
            by (auto simp: init_git_repo_def action_defs Let_def)
          then show ?thesis using commit_failed False by blast
        next
          case r3: True
          with r1 r2 Some Dir assms have "r = Inr ()" "fs w' = fs w" "stdin w' = stdin w"
            "out w' = out w @ [Exec ''git init'' (Some base_path) 0,
               Exec ''git add .'' (Some base_path) 0, Exec git_commit_cmd (Some base_path) 0]"
            by (auto simp: init_git_repo_def action_defs Let_def)
          then show ?thesis using committed by blast
        qed
      qed
    qed
  qed
qed

subsection \<open>The kinds of events of each stage\<close>

lemma success_line_Cons [simp]:
  "c \<noteq> CHR 0xE2 \<Longrightarrow> c # s \<noteq> success_line name base_path"
  by (auto simp: success_line_def check_mark_def)

lemma marks_neq_success [simp]:
  "cross_mark @ s \<noteq> success_line name base_path"
  "warning_sign @ s \<noteq> success_line name base_path"
  by (simp_all add: success_line_def check_mark_def cross_mark_def warning_sign_def)

lemma scaffold_prompts [simp]:
  "overwrite_prompt p \<noteq> install_prompt" "overwrite_prompt p \<noteq> push_prompt"
  "overwrite_prompt p \<noteq> login_prompt" "overwrite_prompt p \<noteq> visibility_prompt"
  "create_prompt p \<noteq> install_prompt" "create_prompt p \<noteq> push_prompt"
  "create_prompt p \<noteq> login_prompt" "create_prompt p \<noteq> visibility_prompt"
  "web_prompt \<noteq> install_prompt" "web_prompt \<noteq> push_prompt"
  "web_prompt \<noteq> login_prompt" "web_prompt \<noteq> visibility_prompt"
  by (simp_all add: overwrite_prompt_def create_prompt_def web_prompt_def install_prompt_def
        push_prompt_def login_prompt_def visibility_prompt_def warning_sign_def)

lemma scaffold_print_Cons [simp]:
  "c \<noteq> CHR 0xE2 \<Longrightarrow> scaffold_event name base_path (Print (c # s))"
  by (cases s; cases "tl s") (auto simp: cross_mark_def)

declare scaffold_event.simps(2) [simp del]

lemma only_safe_write_file: "only (scaffold_event name base_path) (safe_write_file p c)"
  unfolding safe_write_file_def Let_def
  by (intro only_intros allI) simp_all

lemma only_create_project_structure:
  "only (scaffold_event name base_path) (create_project_structure b n web)"
  unfolding create_project_structure_def Let_def
  by (intro only_intros only_safe_write_file)

lemma only_target_resolution: "only (scaffold_event name base_path) (target_resolution b)"
  unfolding target_resolution_def Let_def
  by (intro only_intros allI) simp_all

lemma hosting_event_cmds [simp]:
  "hosting_event name base_path (Exec ''gh --version'' d rc)"
  "hosting_event name base_path (Exec ''gh auth status'' d rc)"
  "hosting_event name base_path (Exec ''gh auth login'' d rc)"
  "hosting_event name base_path (Exec ''brew install gh'' d rc)"
  "hosting_event name base_path (Exec ''sudo apt update && sudo apt install -y gh'' d rc)"
  "hosting_event name base_path (Exec ''sudo dnf install -y gh'' d rc)"
  "hosting_event name base_path (Exec (gh_repo_create_cmd n v) d rc)"
  by (simp_all add: provision_cmds_def git_commit_cmd_def gh_repo_create_cmd_def)

declare hosting_event.simps(3) [simp del]

lemma only_gh_authenticated: "only (hosting_event name base_path) gh_authenticated"
  unfolding gh_authenticated_def by (intro only_intros allI) simp_all

lemma only_push_to_github: "only (hosting_event name base_path) (push_to_github b n)"
  unfolding push_to_github_def Let_def
  by (intro only_intros only_gh_authenticated allI) simp_all

lemma only_install_github_cli: "only (hosting_event name base_path) install_github_cli"
  unfolding install_github_cli_def github_cli_installed_def
  by (intro only_intros allI) simp_all

lemma only_push_offer: "only (hosting_event name base_path) (push_offer b n)"
  unfolding push_offer_def Let_def
  by (intro only_intros only_push_to_github allI) simp_all

lemma only_hosting_stage: "only (hosting_event name base_path) (hosting_stage b n)"
  unfolding hosting_stage_def github_cli_installed_def Let_def
  by (intro only_intros only_push_offer only_install_github_cli allI) simp_all

subsection \<open>The shape of a run\<close>

lemma run_main_cases:
  assumes "run_main base_path t ls e = (r, w')"
  obtains
    (early) "list_all (scaffold_event (path_name base_path) base_path) (out w')"
  | (later) w1 where
      "list_all (scaffold_event (path_name base_path) base_path) (out w1)"
      "later_stages base_path (path_name base_path) w1 = (r, w')"
proof -
  let ?Q = "scaffold_event (path_name base_path) base_path"
  let ?w = "start t ls e"
  have o: "out ?w = []" by (simp add: start_def)
  from assms have m: "and_then (target_resolution base_path)
      (\<lambda>proceed. if \<not> proceed then ret () else pipeline base_path (path_name base_path)) ?w
        = (r, w')"
    by (simp add: run_main_def main_def Let_def)
  from m show ?thesis
  proof (cases rule: and_thenE)
    case (err e1)
    from onlyD [OF only_target_resolution err(1), of "path_name base_path" base_path] o
    show ?thesis using early by auto
  next
    case (ok proceed w0)
    from onlyD [OF only_target_resolution ok(1), of "path_name base_path" base_path] o
    have q0: "list_all ?Q (out w0)" by auto
    show ?thesis
    proof (cases proceed)
      case False
      with ok(2) have "w' = w0" by (simp add: ret_def)
      with q0 show ?thesis using early by simp
    next
      case True
      with ok(2) have "and_then (input web_prompt) (\<lambda>a.
          and_then (create_project_structure base_path (path_name base_path) (accepted a))
            (\<lambda>u. later_stages base_path (path_name base_path))) w0 = (r, w')"
        by (simp add: pipeline_def Let_def accepted_def)
      then show ?thesis
      proof (cases rule: and_thenE)
        case (err e2)
        have "only ?Q (input web_prompt)" by (intro only_intros) simp
        from onlyD [OF this err(1)] q0 show ?thesis using early by auto
      next
        case (ok a w0')
        have "only ?Q (input web_prompt)" by (intro only_intros) simp
        from onlyD [OF this ok(1)] q0 have q0': "list_all ?Q (out w0')" by auto
        from ok(2) show ?thesis
        proof (cases rule: and_thenE)
          case (err e3)
          from onlyD [OF only_create_project_structure err(1), of "path_name base_path" base_path]
            q0' show ?thesis using early by auto
        next
          case (ok u w1)
          from onlyD [OF only_create_project_structure ok(1), of "path_name base_path" base_path]
            q0' have "list_all ?Q (out w1)" by auto
          with ok(2) show ?thesis using later by blast
        qed
      qed
    qed
  qed
qed

lemma later_stages_shape:
  assumes "later_stages base_path name w = (r, w')"
  obtains
    (cwd) zs where "r = Inl FileNotFoundError \<or> r = Inl NotADirectoryError"
      "out w' = out w @ zs"
      "\<forall>z\<in>set zs. \<exists>c'. z = Exec c' (Some base_path) 0 \<and> c' \<in> set provision_cmds"
  | (provision_failed) c rc zs where
      "r = Inl (CalledProcessError c rc)" "rc \<noteq> 0" "c \<in> set provision_cmds"
      "out w' = out w @ zs @ [Exec c (Some base_path) rc]"
      "\<forall>z\<in>set zs. \<exists>c'. z = Exec c' (Some base_path) 0 \<and> c' \<in> set provision_cmds"
  | (init_failed) rc where
      "r = Inl (CalledProcessError ''git init'' rc)" "rc \<noteq> 0"
      "out w' = out w @ map (\<lambda>c. Exec c (Some base_path) 0) provision_cmds
         @ [Exec ''git init'' (Some base_path) rc]"
  | (add_failed) rc where
      "r = Inl (CalledProcessError ''git add .'' rc)" "rc \<noteq> 0"
      "out w' = out w @ map (\<lambda>c. Exec c (Some base_path) 0) provision_cmds
         @ [Exec ''git init'' (Some base_path) 0, Exec ''git add .'' (Some base_path) rc]"
  | (hosting) rc w3 where
      "fs w3 = fs w"
      "out w3 = out w @ map (\<lambda>c. Exec c (Some base_path) 0) provision_cmds
         @ [Exec ''git init'' (Some base_path) 0, Exec ''git add .'' (Some base_path) 0,
            Exec git_commit_cmd (Some base_path) rc]
         @ (if rc = 0 then [] else [Print git_commit_warning])"
      "and_then (hosting_stage base_path name) (\<lambda>u. print (success_line name base_path)) w3
         = (r, w')"
proof -
  let ?P = "map (\<lambda>c. Exec c (Some base_path) 0) provision_cmds"
  from assms have "and_then (create_venv_and_install base_path) (\<lambda>u.
     and_then (init_git_repo base_path) (\<lambda>u.
     and_then (hosting_stage base_path name) (\<lambda>u.
     print (success_line name base_path)))) w = (r, w')"
    unfolding later_stages_def .
  then show ?thesis
  proof (cases rule: and_thenE)
    case (err e1)
    from err(1) show ?thesis
    proof (cases rule: create_venv_and_install_cases)
      case cwd
      have "r = Inl FileNotFoundError \<or> r = Inl NotADirectoryError"
        using cwd(2) err(2) by blast
      moreover have "out w' = out w @ []" using cwd(1) by simp
      ultimately show ?thesis by (rule that(1)) simp
    next
      case (failed c rc zs)
      have "r = Inl (CalledProcessError c rc)" using failed(1) err(2) by simp
      then show ?thesis using failed(2-5) by (rule that(2))
    next
      case ok
      then show ?thesis by simp
    qed
  next
    case (ok u w2)
    from ok(1) have p: "fs w2 = fs w \<and> out w2 = out w @ ?P"
    proof (cases rule: create_venv_and_install_cases)
      case cwd
      then show ?thesis by blast
    next
      case (failed c rc zs)
      then show ?thesis by simp
    next
      case ok
      then show ?thesis by simp
    qed
    have zs: "\<forall>z\<in>set ?P. \<exists>c'. z = Exec c' (Some base_path) 0 \<and> c' \<in> set provision_cmds"
      unfolding set_map by blast
    from ok(2) show ?thesis
    proof (cases rule: and_thenE)
      case (err e2)
      from err(1) show ?thesis
      proof (cases rule: init_git_repo_cases)
        case cwd
        have "r = Inl FileNotFoundError \<or> r = Inl NotADirectoryError"
          using cwd(2) err(2) by blast
        moreover have "out w' = out w @ ?P" using cwd(1) p by simp
        ultimately show ?thesis using zs by (rule that(1))
      next
        case (init_failed rc)
        have "r = Inl (CalledProcessError ''git init'' rc)" using init_failed(1) err(2) by simp
        moreover note init_failed(2)
        moreover have "out w' = out w @ ?P @ [Exec ''git init'' (Some base_path) rc]"
          using init_failed(3) p by simp
        ultimately show ?thesis by (rule that(3))
      next
        case (add_failed rc)
        have "r = Inl (CalledProcessError ''git add .'' rc)" using add_failed(1) err(2) by simp
        moreover note add_failed(2)
        moreover have "out w' = out w @ ?P
          @ [Exec ''git init'' (Some base_path) 0, Exec ''git add .'' (Some base_path) rc]"
          using add_failed(3) p by simp
        ultimately show ?thesis by (rule that(4))
      next
        case committed
        then show ?thesis by simp
      next
        case (commit_failed rc)
        then show ?thesis by simp
      qed
    next
      case (ok u3 w3)
      from ok(1) show ?thesis
      proof (cases rule: init_git_repo_cases)
        case committed
        have "fs w3 = fs w" using committed(2) p by simp
        moreover have "out w3 = out w @ ?P
         @ [Exec ''git init'' (Some base_path) 0, Exec ''git add .'' (Some base_path) 0,
            Exec git_commit_cmd (Some base_path) 0]
         @ (if (0::int) = 0 then [] else [Print git_commit_warning])"
          using committed(4) p by simp
        ultimately show ?thesis using ok(2) by (rule that(5))
      next
        case (commit_failed rc)
        have "fs w3 = fs w" using commit_failed(3) p by simp
        moreover have "out w3 = out w @ ?P
         @ [Exec ''git init'' (Some base_path) 0, Exec ''git add .'' (Some base_path) 0,
            Exec git_commit_cmd (Some base_path) rc]
         @ (if rc = 0 then [] else [Print git_commit_warning])"
          using commit_failed(2,5) p by simp
        ultimately show ?thesis using ok(2) by (rule that(5))
      next
        case cwd
        then show ?thesis by blast
      next
        case (init_failed rc)
        then show ?thesis by simp
      next
        case (add_failed rc)
        then show ?thesis by simp
      qed
    qed
  qed
qed

lemma hosting_tail_shape:
  assumes "and_then (hosting_stage base_path name) (\<lambda>u. print (success_line name base_path)) w
     = (r, w')"
  obtains
    (raised) e evs where "r = Inl e" "out w' = out w @ evs"
      "list_all (hosting_event name base_path) evs"
  | (succeeded) evs where "r = Inr ()"
      "out w' = out w @ evs @ [Print (success_line name base_path)]"
      "list_all (hosting_event name base_path) evs"
  using assms
proof (cases rule: and_thenE)
  case (err e)
  from onlyD [OF only_hosting_stage err(1), of name base_path]
  obtain evs where "out w' = out w @ evs" "list_all (hosting_event name base_path) evs"
    by blast
  with err(2) show ?thesis by (rule raised)
next
  case (ok u w1)
  from onlyD [OF only_hosting_stage ok(1), of name base_path]
  obtain evs where e: "out w1 = out w @ evs" "list_all (hosting_event name base_path) evs"
    by blast
  from ok(2) have "r = Inr ()" "out w' = out w1 @ [Print (success_line name base_path)]"
    by (auto simp: print_def)
  with e have "r = Inr ()" "out w' = out w @ evs @ [Print (success_line name base_path)]"
    by simp_all
  then show ?thesis using e(2) by (rule succeeded)
qed

lemma scaffold_event_no_exec:
  "list_all (scaffold_event name base_path) evs \<Longrightarrow> Exec c d rc \<notin> set evs"
  by (auto simp: list_all_iff)

lemma hosting_event_no_provision:
  "list_all (hosting_event name base_path) evs \<Longrightarrow> c \<in> set provision_cmds \<Longrightarrow>
     Exec c d rc \<notin> set evs"
  by (auto simp: list_all_iff hosting_event.simps(3))

lemma hosting_event_no_git:
  "list_all (hosting_event name base_path) evs \<Longrightarrow>
     c \<in> {''git init'', ''git add .'', git_commit_cmd} \<Longrightarrow> Exec c d rc \<notin> set evs"
  by (auto simp: list_all_iff hosting_event.simps(3))

lemma git_not_provision:
  "''git init'' \<notin> set provision_cmds" "''git add .'' \<notin> set provision_cmds"
  "git_commit_cmd \<notin> set provision_cmds"
  by (simp_all add: provision_cmds_def git_commit_cmd_def)

text \<open>
  C2: in every run in which a process of the environment provisioner exits non-zero,
  \<open>CalledProcessError\<close> for that command is the result of the run (exit status 1), the
  failing process is the last event of the trace, and the trace before it holds only
  prompts, printed lines other than the success line, and provisioner processes: no
  version-control process, no probe or process of the hosting stage, no success line.
\<close>

theorem provisioning_failure_is_fatal:
  assumes "run_main base_path t ls e = (r, w')"
    and "Exec c d rc \<in> set (out w')" and "c \<in> set provision_cmds" and "rc \<noteq> 0"
  shows "r = Inl (CalledProcessError c rc) \<and> exit_status r = 1
     \<and> last (out w') = Exec c d rc
     \<and> (\<forall>ev\<in>set (out w'). scaffold_event (path_name base_path) base_path ev
           \<or> (\<exists>c' rc'. ev = Exec c' (Some base_path) rc' \<and> c' \<in> set provision_cmds))"
  using assms(1)
proof (cases rule: run_main_cases)
  case early
  with assms(2) show ?thesis using scaffold_event_no_exec by blast
next
  case (later w1)
  let ?Q = "scaffold_event (path_name base_path) base_path"
  let ?P = "map (\<lambda>c. Exec c (Some base_path) 0) provision_cmds"
  have n1: "Exec c d rc \<notin> set (out w1)" using later(1) by (rule scaffold_event_no_exec)
  have nP: "Exec c d rc \<notin> set ?P" using assms(4) by auto
  from later(2) show ?thesis
  proof (cases rule: later_stages_shape)
    case (cwd zs)
    with assms(2,4) n1 show ?thesis by auto
  next
    case (provision_failed c0 rc0 zs)
    from assms(2,4) n1 provision_failed(4,5) have eq: "Exec c d rc = Exec c0 (Some base_path) rc0"
      by auto
    have "\<forall>ev\<in>set (out w'). ?Q ev
           \<or> (\<exists>c' rc'. ev = Exec c' (Some base_path) rc' \<and> c' \<in> set provision_cmds)"
      using later(1) provision_failed(3,4,5) by (auto simp: list_all_iff)
    with eq provision_failed(1,4) show ?thesis by simp
  next
    case (init_failed rc1)
    with assms(2,3) n1 nP git_not_provision show ?thesis by auto
  next
    case (add_failed rc1)
    with assms(2,3) n1 nP git_not_provision show ?thesis by auto
  next
    case (hosting rc1 w3)
    have n3: "Exec c d rc \<notin> set (out w3)"
      using hosting(2) assms(3) n1 nP git_not_provision by (auto split: if_splits)
    from hosting(3) show ?thesis
    proof (cases rule: hosting_tail_shape)
      case (raised e evs)
      with hosting_event_no_provision [OF raised(3) assms(3)] n3 assms(2) show ?thesis by auto
    next
      case (succeeded evs)
      with hosting_event_no_provision [OF succeeded(3) assms(3)] n3 assms(2) show ?thesis by auto
    qed
  qed
qed

lemma upgrade_fails_run:
  "out (snd (run_main [''demo''] demo_tree [''n''] upgrade_fails_env)) =
     [Ask web_prompt (Some ''n''),
      Print ''Created: /demo/README.md'',
      Print ''Created: /demo/.gitignore'',
      Print ''Created: /demo/LICENSE'',
      Print ''Created: /demo/requirements.txt'',
      Print ''Created: /demo/requirements-dev.txt'',
      Print ''Created: /demo/pyproject.toml'',
      Print ''Created: /demo/cli/main.py'',
      Exec ''python3 -m venv .venv'' (Some [''demo'']) 0,
      Exec ''./.venv/bin/pip install --upgrade pip'' (Some [''demo'']) 1]"
  by code_simp


theorem provisioning_failure_is_fatal_witness:
  "Exec ''./.venv/bin/pip install --upgrade pip'' (Some [''demo'']) 1
     \<in> set (out (snd (run_main [''demo''] demo_tree [''n''] upgrade_fails_env)))
   \<and> ''./.venv/bin/pip install --upgrade pip'' \<in> set provision_cmds
   \<and> fst (run_main [''demo''] demo_tree [''n''] upgrade_fails_env) =
       Inl (CalledProcessError ''./.venv/bin/pip install --upgrade pip'' 1)
   \<and> last (out (snd (run_main [''demo''] demo_tree [''n''] upgrade_fails_env))) =
       Exec ''./.venv/bin/pip install --upgrade pip'' (Some [''demo'']) 1"
proof -
  let ?run = "run_main [''demo''] demo_tree [''n''] upgrade_fails_env"
  let ?c = "''./.venv/bin/pip install --upgrade pip''"
  have r: "?run = (fst ?run, snd ?run)" by simp
  have m: "Exec ?c (Some [''demo'']) 1 \<in> set (out (snd ?run))"
    unfolding upgrade_fails_run by simp
  have p: "?c \<in> set provision_cmds" by (simp add: provision_cmds_def)
  have nz: "(1::int) \<noteq> 0" by simp
  from provisioning_failure_is_fatal [OF r m p nz] m p show ?thesis by blast
qed

subsection \<open>The version-control stage\<close>

lemma hosting_stage_starts:
  assumes "hosting_stage base_path name w = (r, w')"
  shows "\<exists>b post. out w' = out w @ Which ''gh'' b # post"
proof -
  let ?K = "\<lambda>found. and_then
       (if \<not> found then
          and_then (input install_prompt) (\<lambda>a.
            let offer = py_lower (py_strip a)
            in if offer = ''y'' then install_github_cli else ret found)
        else ret found) (\<lambda>gh_ready.
     if gh_ready then push_offer base_path name else ret ())"
  have k: "only (hosting_event name base_path) (?K found)" for found
    unfolding Let_def
    by (intro only_intros only_push_offer only_install_github_cli allI) simp_all
  from assms have "and_then (which ''gh'') ?K w = (r, w')"
    by (simp add: hosting_stage_def github_cli_installed_def)
  then show ?thesis
  proof (cases rule: and_thenE)
    case (err e)
    then show ?thesis by (simp add: which_def Let_def)
  next
    case (ok found w0)
    then have o: "out w0 = out w @ [Which ''gh'' found]" by (auto simp: which_def Let_def)
    from onlyD [OF k ok(2)] obtain evs where "out w' = out w0 @ evs" by blast
    with o show ?thesis by simp
  qed
qed

lemma hosting_tail_starts:
  assumes "and_then (hosting_stage base_path name) (\<lambda>u. print (success_line name base_path)) w
     = (r, w')"
  shows "\<exists>b post. out w' = out w @ Which ''gh'' b # post"
  using assms
proof (cases rule: and_thenE)
  case (err e)
  then show ?thesis using hosting_stage_starts by blast
next
  case (ok u w1)
  from hosting_stage_starts [OF ok(1)] obtain b post where
    "out w1 = out w @ Which ''gh'' b # post" by blast
  moreover from ok(2) have "out w' = out w1 @ [Print (success_line name base_path)]"
    by (auto simp: print_def)
  ultimately show ?thesis by simp
qed

lemma git_cmds_distinct:
  "''git init'' \<noteq> git_commit_cmd" "''git add .'' \<noteq> git_commit_cmd"
  by (simp_all add: git_commit_cmd_def)

text \<open>
  C3: in every run, a non-zero exit of \<open>git init\<close> or of \<open>git add .\<close> is the result of
  the run, as \<open>CalledProcessError\<close>, and its process is the last event. A non-zero exit
  of the initial commit is followed by the warning and then by the first probe of the
  hosting stage: from the warning on, the run is the hosting stage and the success line,
  and where it returns normally its last event is the success line.
\<close>

theorem git_failures:
  assumes "run_main base_path t ls e = (r, w')"
    and "Exec c d rc \<in> set (out w')" and "rc \<noteq> 0"
  shows "(c \<in> {''git init'', ''git add .''} \<longrightarrow>
            r = Inl (CalledProcessError c rc) \<and> last (out w') = Exec c d rc)
       \<and> (c = git_commit_cmd \<longrightarrow>
            (\<exists>pre b post w3.
               out w' = pre @ [Exec git_commit_cmd d rc, Print git_commit_warning,
                              Which ''gh'' b] @ post
               \<and> out w3 = pre @ [Exec git_commit_cmd d rc, Print git_commit_warning]
               \<and> and_then (hosting_stage base_path (path_name base_path))
                     (\<lambda>u. print (success_line (path_name base_path) base_path)) w3 = (r, w'))
            \<and> (r = Inr () \<longrightarrow>
                 last (out w') = Print (success_line (path_name base_path) base_path)))"
  using assms(1)
proof (cases rule: run_main_cases)
  case early
  with assms(2) show ?thesis using scaffold_event_no_exec by blast
next
  case (later w1)
  let ?n = "path_name base_path"
  let ?P = "map (\<lambda>c. Exec c (Some base_path) 0) provision_cmds"
  have n1: "Exec c d rc \<notin> set (out w1)" using later(1) by (rule scaffold_event_no_exec)
  have nP: "Exec c d rc \<notin> set ?P" using assms(3) by auto
  from later(2) show ?thesis
  proof (cases rule: later_stages_shape)
    case (cwd zs)
    with assms(2,3) n1 show ?thesis by auto
  next
    case (provision_failed c0 rc0 zs)
    from assms(2,3) n1 provision_failed(4,5) have "c = c0" by auto
    with provision_failed(3) git_not_provision show ?thesis by auto
  next
    case (init_failed rc1)
    from assms(2) n1 nP init_failed(3) have "Exec c d rc = Exec ''git init'' (Some base_path) rc1"
      by auto
    with init_failed(1,3) git_cmds_distinct show ?thesis by auto
  next
    case (add_failed rc1)
    from assms(2,3) n1 nP add_failed(3) have "Exec c d rc = Exec ''git add .'' (Some base_path) rc1"
      by auto
    with add_failed(1,3) git_cmds_distinct show ?thesis by auto
  next
    case (hosting rc1 w3)
    from hosting(3) obtain evs where
      evs: "list_all (hosting_event ?n base_path) evs"
      and o: "out w' = out w3 @ evs \<or> out w' = out w3 @ evs @ [Print (success_line ?n base_path)]"
      and s: "r = Inr () \<longrightarrow> out w' = out w3 @ evs @ [Print (success_line ?n base_path)]"
      by (cases rule: hosting_tail_shape) auto
    have part1: "c \<in> {''git init'', ''git add .''} \<longrightarrow>
            r = Inl (CalledProcessError c rc) \<and> last (out w') = Exec c d rc"
    proof
      assume c: "c \<in> {''git init'', ''git add .''}"
      then have "Exec c d rc \<notin> set evs" using hosting_event_no_git [OF evs] by blast
      moreover have "Exec c d rc \<notin> set (out w3)"
        using hosting(2) n1 nP assms(3) c git_cmds_distinct by (auto split: if_splits)
      ultimately have False using assms(2) o by auto
      then show "r = Inl (CalledProcessError c rc) \<and> last (out w') = Exec c d rc" ..
    qed
    have part2: "c = git_commit_cmd \<longrightarrow>
            (\<exists>pre b post w3.
               out w' = pre @ [Exec git_commit_cmd d rc, Print git_commit_warning,
                              Which ''gh'' b] @ post
               \<and> out w3 = pre @ [Exec git_commit_cmd d rc, Print git_commit_warning]
               \<and> and_then (hosting_stage base_path ?n)
                     (\<lambda>u. print (success_line ?n base_path)) w3 = (r, w'))
            \<and> (r = Inr () \<longrightarrow> last (out w') = Print (success_line ?n base_path))"
    proof
      assume c: "c = git_commit_cmd"
      then have "Exec c d rc \<notin> set evs" using hosting_event_no_git [OF evs] by blast
      with assms(2) o have "Exec c d rc \<in> set (out w3)" by auto
      with hosting(2) n1 nP c git_cmds_distinct
      have eq: "d = Some base_path \<and> rc = rc1" by (auto split: if_splits)
      let ?pre = "out w1 @ ?P @ [Exec ''git init'' (Some base_path) 0,
         Exec ''git add .'' (Some base_path) 0]"
      have o3: "out w3 = ?pre @ [Exec git_commit_cmd d rc, Print git_commit_warning]"
        using hosting(2) eq assms(3) by simp
      from hosting_tail_starts [OF hosting(3)] obtain b post where
        "out w' = out w3 @ Which ''gh'' b # post" by blast
      with o3 have "out w' = ?pre @ [Exec git_commit_cmd d rc, Print git_commit_warning,
          Which ''gh'' b] @ post" by simp
      with o3 hosting(3) have "\<exists>pre b post w3.
               out w' = pre @ [Exec git_commit_cmd d rc, Print git_commit_warning,
                              Which ''gh'' b] @ post
               \<and> out w3 = pre @ [Exec git_commit_cmd d rc, Print git_commit_warning]
               \<and> and_then (hosting_stage base_path ?n)
                     (\<lambda>u. print (success_line ?n base_path)) w3 = (r, w')"
        by blast
      moreover have "r = Inr () \<longrightarrow> last (out w') = Print (success_line ?n base_path)"
        using s by auto
      ultimately show "(\<exists>pre b post w3.
               out w' = pre @ [Exec git_commit_cmd d rc, Print git_commit_warning,
                              Which ''gh'' b] @ post
               \<and> out w3 = pre @ [Exec git_commit_cmd d rc, Print git_commit_warning]
               \<and> and_then (hosting_stage base_path ?n)
                     (\<lambda>u. print (success_line ?n base_path)) w3 = (r, w'))
            \<and> (r = Inr () \<longrightarrow> last (out w') = Print (success_line ?n base_path))"
        by blast
    qed
    from part1 part2 show ?thesis by blast
  qed
qed

lemma commit_fails_run:
  "fst (run_main [''demo''] demo_tree [''n'', ''n''] commit_fails_env) = Inr ()"
  "out (snd (run_main [''demo''] demo_tree [''n'', ''n''] commit_fails_env)) =
     [Ask web_prompt (Some ''n''),
      Print ''Created: /demo/README.md'',
      Print ''Created: /demo/.gitignore'',
      Print ''Created: /demo/LICENSE'',
      Print ''Created: /demo/requirements.txt'',
      Print ''Created: /demo/requirements-dev.txt'',
      Print ''Created: /demo/pyproject.toml'',
      Print ''Created: /demo/cli/main.py'',
      Exec ''python3 -m venv .venv'' (Some [''demo'']) 0,
      Exec ''./.venv/bin/pip install --upgrade pip'' (Some [''demo'']) 0,
      Exec ''./.venv/bin/pip install -r requirements.txt -r requirements-dev.txt''
        (Some [''demo'']) 0,
      Exec ''git init'' (Some [''demo'']) 0,
      Exec ''git add .'' (Some [''demo'']) 0,
      Exec git_commit_cmd (Some [''demo'']) 1,
      Print git_commit_warning,
      Which ''gh'' False,
      Ask install_prompt (Some ''n''),
      Print (success_line ''demo'' [''demo''])]"
  by code_simp+

theorem git_failures_witness:
  "Exec git_commit_cmd (Some [''demo'']) 1
     \<in> set (out (snd (run_main [''demo''] demo_tree [''n'', ''n''] commit_fails_env)))
   \<and> fst (run_main [''demo''] demo_tree [''n'', ''n''] commit_fails_env) = Inr ()
   \<and> last (out (snd (run_main [''demo''] demo_tree [''n'', ''n''] commit_fails_env))) =
       Print (success_line (path_name [''demo'']) [''demo''])"
proof -
  let ?run = "run_main [''demo''] demo_tree [''n'', ''n''] commit_fails_env"
  have r: "?run = (Inr (), snd ?run)" using commit_fails_run(1) by (metis prod.collapse)
  have m: "Exec git_commit_cmd (Some [''demo'']) 1 \<in> set (out (snd ?run))"
    unfolding commit_fails_run(2) by simp
  have nz: "(1::int) \<noteq> 0" by simp
  from git_failures [OF r m nz]
  have "last (out (snd ?run)) = Print (success_line (path_name [''demo'']) [''demo''])"
    by blast
  moreover have "fst ?run = Inr ()" using r by (metis fst_conv)
  ultimately show ?thesis using m by blast
qed

subsection \<open>Skip notices\<close>

lemma skip_notice_simps [simp]:
  "skip_notice (Print (cross_mark @ s))"
  "\<not> skip_notice (Print (warning_sign @ s))"
  "\<not> skip_notice (Print (success_line name base_path))"
  by (simp_all add: cross_mark_def warning_sign_def success_line_def check_mark_def)

lemma push_to_github_skips:
  assumes "push_to_github base_path name w = (r, w')"
  shows "\<exists>evs. out w' = out w @ evs \<and> ((\<exists>ev\<in>set evs. skip_notice ev) \<longrightarrow> r = Inr ())"
  using assms
  by (auto simp: push_to_github_def gh_authenticated_def action_defs Let_def
        cross_mark_def warning_sign_def
        split: if_splits list.splits option.splits node.splits)

lemma install_github_cli_skips:
  assumes "install_github_cli w = (r, w')"
  shows "\<exists>evs. out w' = out w @ evs \<and> ((\<exists>ev\<in>set evs. skip_notice ev) \<longrightarrow> r = Inr False)"
  using assms
  by (auto simp: install_github_cli_def github_cli_installed_def action_defs Let_def
        cross_mark_def
        split: if_splits list.splits option.splits node.splits)

lemma gh_repo_create_cmd_simps [simp]:
  "gh_repo_create_cmd n v \<noteq> ''gh --version''"
  "gh_repo_create_cmd n v \<noteq> ''gh auth status''"
  "gh_repo_create_cmd n v \<noteq> ''gh auth login''"
  "gh_repo_create_cmd n v \<noteq> ''brew install gh''"
  "gh_repo_create_cmd n v \<noteq> ''sudo apt update && sudo apt install -y gh''"
  "gh_repo_create_cmd n v \<noteq> ''sudo dnf install -y gh''"
  "(gh_repo_create_cmd n v = gh_repo_create_cmd n v') = (v = v')"
  by (simp_all add: gh_repo_create_cmd_def)

lemma hosting_stage_outcome:
  assumes "hosting_stage base_path name w = (r, w')"
  shows "\<exists>evs. out w' = out w @ evs
     \<and> ((\<exists>ev\<in>set evs. skip_notice ev) \<longrightarrow> r = Inr ())
     \<and> (\<forall>a. Ask install_prompt (Some a) \<in> set evs \<and> \<not> accepted a \<longrightarrow> r = Inr ())
     \<and> (\<forall>v d rc. Exec (gh_repo_create_cmd name v) d rc \<in> set evs \<and> rc \<noteq> 0 \<longrightarrow>
           r = Inl (CalledProcessError (gh_repo_create_cmd name v) rc)
           \<and> last evs = Exec (gh_repo_create_cmd name v) d rc)"
  using assms
  by (auto simp: hosting_stage_def push_offer_def push_to_github_def install_github_cli_def
        github_cli_installed_def gh_authenticated_def action_defs Let_def
        cross_mark_def warning_sign_def accepted_def
        install_prompt_def push_prompt_def login_prompt_def visibility_prompt_def
        split: if_splits list.splits option.splits node.splits)

lemma hosting_tail_outcome:
  assumes "and_then (hosting_stage base_path name) (\<lambda>u. print (success_line name base_path)) w
     = (r, w')"
  obtains
    (raised) e evs where "r = Inl e" "out w' = out w @ evs"
      "list_all (hosting_event name base_path) evs"
      "\<forall>ev\<in>set evs. \<not> skip_notice ev"
      "\<forall>a. Ask install_prompt (Some a) \<in> set evs \<longrightarrow> accepted a"
      "\<forall>v d rc. Exec (gh_repo_create_cmd name v) d rc \<in> set evs \<and> rc \<noteq> 0 \<longrightarrow>
           e = CalledProcessError (gh_repo_create_cmd name v) rc
           \<and> last evs = Exec (gh_repo_create_cmd name v) d rc"
  | (succeeded) evs where "r = Inr ()"
      "out w' = out w @ evs @ [Print (success_line name base_path)]"
      "list_all (hosting_event name base_path) evs"
      "\<forall>v d rc. Exec (gh_repo_create_cmd name v) d rc \<in> set evs \<longrightarrow> rc = 0"
  using assms
proof (cases rule: and_thenE)
  case (err e)
  from onlyD [OF only_hosting_stage err(1), of name base_path]
  obtain evs where evs: "out w' = out w @ evs" "list_all (hosting_event name base_path) evs"
    by blast
  from hosting_stage_outcome [OF err(1)] obtain evs' where
    o: "out w' = out w @ evs'"
    "(\<exists>ev\<in>set evs'. skip_notice ev) \<longrightarrow> Inl e = (Inr () :: error + unit)"
    "\<forall>a. Ask install_prompt (Some a) \<in> set evs' \<and> \<not> accepted a \<longrightarrow>
       Inl e = (Inr () :: error + unit)"
    "\<forall>v d rc. Exec (gh_repo_create_cmd name v) d rc \<in> set evs' \<and> rc \<noteq> 0 \<longrightarrow>
           Inl e = (Inl (CalledProcessError (gh_repo_create_cmd name v) rc) :: error + unit)
           \<and> last evs' = Exec (gh_repo_create_cmd name v) d rc"
    by blast
  from evs(1) o(1) have same: "evs' = evs" by simp
  have a: "\<forall>ev\<in>set evs. \<not> skip_notice ev" using o(2) same by auto
  have b: "\<forall>a. Ask install_prompt (Some a) \<in> set evs \<longrightarrow> accepted a" using o(3) same by auto
  have c: "\<forall>v d rc. Exec (gh_repo_create_cmd name v) d rc \<in> set evs \<and> rc \<noteq> 0 \<longrightarrow>
           e = CalledProcessError (gh_repo_create_cmd name v) rc
           \<and> last evs = Exec (gh_repo_create_cmd name v) d rc"
    using o(4) same by auto
  from err(2) evs a b c show ?thesis by (rule raised)
next
  case (ok u w1)
  from onlyD [OF only_hosting_stage ok(1), of name base_path]
  obtain evs where evs: "out w1 = out w @ evs" "list_all (hosting_event name base_path) evs"
    by blast
  from hosting_stage_outcome [OF ok(1)] obtain evs' where
    o: "out w1 = out w @ evs'"
    "\<forall>v d rc. Exec (gh_repo_create_cmd name v) d rc \<in> set evs' \<and> rc \<noteq> 0 \<longrightarrow>
           Inr u = (Inl (CalledProcessError (gh_repo_create_cmd name v) rc) :: error + unit)
           \<and> last evs' = Exec (gh_repo_create_cmd name v) d rc"
    by blast
  from evs(1) o(1) have same: "evs' = evs" by simp
  have c: "\<forall>v d rc. Exec (gh_repo_create_cmd name v) d rc \<in> set evs \<longrightarrow> rc = 0"
    using o(2) same by auto
  from ok(2) have "r = Inr ()" "out w' = out w1 @ [Print (success_line name base_path)]"
    by (auto simp: print_def)
  with evs have "r = Inr ()" "out w' = out w @ evs @ [Print (success_line name base_path)]"
    by simp_all
  then show ?thesis using evs(2) c by (rule succeeded)
qed

lemma scaffold_event_plain:
  assumes "list_all (scaffold_event name base_path) evs" "ev \<in> set evs"
  shows "\<not> skip_notice ev" "ev \<noteq> Ask install_prompt x" "ev \<noteq> Exec c d rc"
    "ev \<noteq> Print (success_line name base_path)"
  using assms by (cases ev; auto simp: list_all_iff scaffold_event.simps(2))+

lemma create_cmd_not_earlier:
  "gh_repo_create_cmd n v \<notin> set provision_cmds"
  "gh_repo_create_cmd n v \<noteq> ''git init''" "gh_repo_create_cmd n v \<noteq> ''git add .''"
  "gh_repo_create_cmd n v \<noteq> git_commit_cmd"
  using hosting_event_cmds(7) [of name base_path n v d rc]
  by (simp_all add: hosting_event.simps(3))

lemma warning_not_success: "git_commit_warning \<noteq> success_line name base_path"
  by (simp add: git_commit_warning_def)

lemma warning_not_skip: "\<not> skip_notice (Print git_commit_warning)"
  by (simp add: git_commit_warning_def warning_sign_def cross_mark_def)

text \<open>
  The events of the provisioner and of the version-control stage in a run that reaches
  the hosting stage.
\<close>

lemma middle_events_plain:
  assumes "ev \<in> set (map (\<lambda>c. Exec c (Some base_path) 0) provision_cmds
         @ [Exec ''git init'' (Some base_path) 0, Exec ''git add .'' (Some base_path) 0,
            Exec git_commit_cmd (Some base_path) rc1]
         @ (if rc1 = 0 then [] else [Print git_commit_warning]))"
  shows "\<not> skip_notice ev" "ev \<noteq> Ask p x" "ev \<noteq> Exec (gh_repo_create_cmd n v) d rc"
    "ev \<noteq> Print (success_line name base_path)"
  using assms create_cmd_not_earlier [of n v] warning_not_success [of name base_path]
    warning_not_skip
  by (auto split: if_splits)


text \<open>
  C10, amended: in every run, a non-zero exit of the command that creates and pushes the
  remote repository is the result of the run, as \<open>CalledProcessError\<close> (exit status 1);
  its process is the last event and the success line is not printed. The handled
  conditions of the hosting stage are those that print a skip notice (CLI not found by
  \<open>push_to_github\<close>, Homebrew missing, unsupported package manager or system, login
  failed, still not authenticated, login declined) and a declined installation: after
  any of them the run returns normally and ends with the success line.
\<close>

theorem remote_creation_failure_is_fatal:
  assumes "run_main base_path t ls e = (r, w')"
  shows "(Exec (gh_repo_create_cmd (path_name base_path) v) d rc \<in> set (out w') \<and> rc \<noteq> 0 \<longrightarrow>
            r = Inl (CalledProcessError (gh_repo_create_cmd (path_name base_path) v) rc)
            \<and> exit_status r = 1
            \<and> last (out w') = Exec (gh_repo_create_cmd (path_name base_path) v) d rc
            \<and> Print (success_line (path_name base_path) base_path) \<notin> set (out w'))
       \<and> ((\<exists>ev\<in>set (out w'). skip_notice ev)
            \<or> (\<exists>a. Ask install_prompt (Some a) \<in> set (out w') \<and> \<not> accepted a) \<longrightarrow>
            r = Inr () \<and> last (out w') = Print (success_line (path_name base_path) base_path))"
  using assms
proof (cases rule: run_main_cases)
  case early
  note sp = scaffold_event_plain [OF early]
  from sp show ?thesis by blast
next
  case (later w1)
  let ?n = "path_name base_path"
  let ?cmd = "gh_repo_create_cmd ?n v"
  note sp = scaffold_event_plain [OF later(1)]
  have plain1: "\<forall>ev\<in>set (out w1). \<not> skip_notice ev \<and> (\<forall>x. ev \<noteq> Ask install_prompt x)
        \<and> (\<forall>c d rc. ev \<noteq> Exec c d rc)"
    using sp by blast
  from later(2) show ?thesis
  proof (cases rule: later_stages_shape)
    case (cwd zs)
    have "\<forall>ev\<in>set (out w'). \<not> skip_notice ev \<and> (\<forall>x. ev \<noteq> Ask install_prompt x)
        \<and> ev \<noteq> Exec ?cmd d rc"
      using plain1 cwd(2,3) create_cmd_not_earlier(1) [of ?n v] by auto
    then show ?thesis by blast
  next
    case (provision_failed c0 rc0 zs)
    have "\<forall>ev\<in>set (out w'). \<not> skip_notice ev \<and> (\<forall>x. ev \<noteq> Ask install_prompt x)
        \<and> ev \<noteq> Exec ?cmd d rc"
      using plain1 provision_failed(3,4,5) create_cmd_not_earlier(1) [of ?n v] by auto
    then show ?thesis by blast
  next
    case (init_failed rc1)
    have "\<forall>ev\<in>set (out w'). \<not> skip_notice ev \<and> (\<forall>x. ev \<noteq> Ask install_prompt x)
        \<and> ev \<noteq> Exec ?cmd d rc"
      using plain1 init_failed(3) create_cmd_not_earlier [of ?n v] by auto
    then show ?thesis by blast
  next
    case (add_failed rc1)
    have "\<forall>ev\<in>set (out w'). \<not> skip_notice ev \<and> (\<forall>x. ev \<noteq> Ask install_prompt x)
        \<and> ev \<noteq> Exec ?cmd d rc"
      using plain1 add_failed(3) create_cmd_not_earlier [of ?n v] by auto
    then show ?thesis by blast
  next
    case (hosting rc1 w3)
    let ?M = "map (\<lambda>c. Exec c (Some base_path) 0) provision_cmds
         @ [Exec ''git init'' (Some base_path) 0, Exec ''git add .'' (Some base_path) 0,
            Exec git_commit_cmd (Some base_path) rc1]
         @ (if rc1 = 0 then [] else [Print git_commit_warning])"
    have o3: "out w3 = out w1 @ ?M" using hosting(2) by simp
    have plain3: "\<forall>ev\<in>set (out w3). \<not> skip_notice ev \<and> (\<forall>x. ev \<noteq> Ask install_prompt x)
        \<and> ev \<noteq> Exec ?cmd d rc \<and> ev \<noteq> Print (success_line ?n base_path)"
    proof
      fix ev assume "ev \<in> set (out w3)"
      then consider "ev \<in> set (out w1)" | "ev \<in> set ?M" unfolding o3 by auto
      then show "\<not> skip_notice ev \<and> (\<forall>x. ev \<noteq> Ask install_prompt x)
        \<and> ev \<noteq> Exec ?cmd d rc \<and> ev \<noteq> Print (success_line ?n base_path)"
      proof cases
        case 1
        with sp show ?thesis by blast
      next
        case 2
        from middle_events_plain [OF 2] show ?thesis by blast
      qed
    qed
    from hosting(3) show ?thesis
    proof (cases rule: hosting_tail_outcome)
      case (raised e1 evs)
      have nos: "Print (success_line ?n base_path) \<notin> set evs"
        using raised(3) by (auto simp: list_all_iff)
      have a: "Exec ?cmd d rc \<in> set (out w') \<and> rc \<noteq> 0 \<longrightarrow>
            r = Inl (CalledProcessError ?cmd rc) \<and> exit_status r = 1
            \<and> last (out w') = Exec ?cmd d rc
            \<and> Print (success_line ?n base_path) \<notin> set (out w')"
      proof
        assume h: "Exec ?cmd d rc \<in> set (out w') \<and> rc \<noteq> 0"
        with plain3 raised(2) have m: "Exec ?cmd d rc \<in> set evs" by auto
        with raised(6) h have e1: "e1 = CalledProcessError ?cmd rc"
          and l: "last evs = Exec ?cmd d rc" by blast+
        from m have "evs \<noteq> []" by auto
        with l raised(2) have "last (out w') = Exec ?cmd d rc" by simp
        moreover have "Print (success_line ?n base_path) \<notin> set (out w')"
          using plain3 nos raised(2) by auto
        ultimately show "r = Inl (CalledProcessError ?cmd rc) \<and> exit_status r = 1
            \<and> last (out w') = Exec ?cmd d rc
            \<and> Print (success_line ?n base_path) \<notin> set (out w')"
          using raised(1) e1 by simp
      qed
      have b: "\<not> ((\<exists>ev\<in>set (out w'). skip_notice ev)
            \<or> (\<exists>a. Ask install_prompt (Some a) \<in> set (out w') \<and> \<not> accepted a))"
        using plain3 raised(2,4,5) by auto
      from a b show ?thesis by blast
    next
      case (succeeded evs)
      have "Exec ?cmd d rc \<in> set (out w') \<longrightarrow> rc = 0"
        using plain3 succeeded(2,4) by auto
      moreover have "r = Inr () \<and> last (out w') = Print (success_line ?n base_path)"
        using succeeded(1,2) by simp
      ultimately show ?thesis by blast
    qed
  qed
qed

lemma create_fails_run:
  "Exec (gh_repo_create_cmd ''demo'' ''private'') (Some [''demo'']) 1
     \<in> set (out (snd (run_main [''demo''] demo_tree [''n'', ''y'', []] create_fails_env)))"
  by code_simp

lemma install_declined_run:
  "Ask install_prompt (Some ''n'')
     \<in> set (out (snd (run_main [''demo''] demo_tree [''n'', ''n''] quiet_env)))"
  by code_simp

theorem remote_creation_failure_is_fatal_witness:
  "Exec (gh_repo_create_cmd (path_name [''demo'']) ''private'') (Some [''demo'']) 1
     \<in> set (out (snd (run_main [''demo''] demo_tree [''n'', ''y'', []] create_fails_env)))
   \<and> last (out (snd (run_main [''demo''] demo_tree [''n'', ''y'', []] create_fails_env))) =
       Exec (gh_repo_create_cmd (path_name [''demo'']) ''private'') (Some [''demo'']) 1
   \<and> Ask install_prompt (Some ''n'')
       \<in> set (out (snd (run_main [''demo''] demo_tree [''n'', ''n''] quiet_env)))
   \<and> \<not> accepted ''n''
   \<and> fst (run_main [''demo''] demo_tree [''n'', ''n''] quiet_env) = Inr ()
   \<and> last (out (snd (run_main [''demo''] demo_tree [''n'', ''n''] quiet_env))) =
       Print (success_line (path_name [''demo'']) [''demo''])"
proof -
  let ?r1 = "run_main [''demo''] demo_tree [''n'', ''y'', []] create_fails_env"
  let ?r2 = "run_main [''demo''] demo_tree [''n'', ''n''] quiet_env"
  have n: "path_name [''demo''] = ''demo''" by (simp add: path_name_def)
  have m1: "Exec (gh_repo_create_cmd (path_name [''demo'']) ''private'') (Some [''demo'']) 1
     \<in> set (out (snd ?r1))" unfolding n by (rule create_fails_run)
  have nz: "(1::int) \<noteq> 0" by simp
  have p1: "?r1 = (fst ?r1, snd ?r1)" by simp
  from remote_creation_failure_is_fatal [OF p1, of "''private''" "Some [''demo'']" 1] m1 nz
  have l1: "last (out (snd ?r1)) =
       Exec (gh_repo_create_cmd (path_name [''demo'']) ''private'') (Some [''demo'']) 1"
    by blast
  have na: "\<not> accepted ''n''" by (rule accepted_examples)
  have p2: "?r2 = (fst ?r2, snd ?r2)" by simp
  from remote_creation_failure_is_fatal [OF p2] install_declined_run na
  have "fst ?r2 = Inr () \<and> last (out (snd ?r2)) =
       Print (success_line (path_name [''demo'']) [''demo''])" by blast
  with m1 l1 install_declined_run na show ?thesis by blast
qed

text \<open>
  C10, as stated, fails on one of the conditions it lists as caught: a failing
  installation. On macOS with Homebrew, an accepted installation whose command exits
  non-zero ends the run with its \<open>CalledProcessError\<close>, without the success line.
\<close>

theorem install_failure_counterexample:
  "fst (run_main [''demo''] demo_tree [''n'', ''y''] brew_fails_env) =
     Inl (CalledProcessError ''brew install gh'' 1)
   \<and> exit_status (fst (run_main [''demo''] demo_tree [''n'', ''y''] brew_fails_env)) = 1
   \<and> last (out (snd (run_main [''demo''] demo_tree [''n'', ''y''] brew_fails_env))) =
       Exec ''brew install gh'' None 1
   \<and> Print (success_line ''demo'' [''demo''])
       \<notin> set (out (snd (run_main [''demo''] demo_tree [''n'', ''y''] brew_fails_env)))"
  by code_simp

end
